theory Spec2Isabelle
  imports Main "HOL-Library.Word"
begin

section \<open>Configuration constants (Logger.h, LoggerConfig.h)\<close>

definition CONFIG_LOG_BUFFER_SIZE :: nat where
  "CONFIG_LOG_BUFFER_SIZE = 256"

definition CONFIG_LOG_MAX_TAGS :: nat where
  "CONFIG_LOG_MAX_TAGS = 32"

definition CONFIG_LOG_SUBSCRIBER_QUEUE_SIZE :: nat where
  "CONFIG_LOG_SUBSCRIBER_QUEUE_SIZE = 16"

definition CONFIG_LOG_SUBSCRIBER_TAG_SIZE :: nat where
  "CONFIG_LOG_SUBSCRIBER_TAG_SIZE = 32"

definition CONFIG_LOG_SUBSCRIBER_MSG_SIZE :: nat where
  "CONFIG_LOG_SUBSCRIBER_MSG_SIZE = 200"

definition MAX_LOGS_PER_SECOND :: "32 word" where
  "MAX_LOGS_PER_SECOND = 100"

definition MAX_SUBSCRIBERS :: nat where
  "MAX_SUBSCRIBERS = 4"

definition RATE_LIMIT_WINDOW_MS :: "32 word" where
  "RATE_LIMIT_WINDOW_MS = 1000"

section \<open>Severity levels\<close>

text \<open>
  \<^verbatim>\<open>esp_log_level_t\<close> is the ESP-IDF enumeration; the logger compares its values
  as integers (\<^verbatim>\<open>level <= effectiveLevel\<close>).
\<close>

datatype esp_log_level_t =
  ESP_LOG_NONE | ESP_LOG_ERROR | ESP_LOG_WARN | ESP_LOG_INFO | ESP_LOG_DEBUG | ESP_LOG_VERBOSE

fun level_num :: "esp_log_level_t \<Rightarrow> nat" where
  "level_num ESP_LOG_NONE = 0"
| "level_num ESP_LOG_ERROR = 1"
| "level_num ESP_LOG_WARN = 2"
| "level_num ESP_LOG_INFO = 3"
| "level_num ESP_LOG_DEBUG = 4"
| "level_num ESP_LOG_VERBOSE = 5"

definition level_le :: "esp_log_level_t \<Rightarrow> esp_log_level_t \<Rightarrow> bool" where
  "level_le a b = (level_num a \<le> level_num b)"

fun levelToString :: "esp_log_level_t \<Rightarrow> string" where
  "levelToString ESP_LOG_NONE = ''N''"
| "levelToString ESP_LOG_ERROR = ''E''"
| "levelToString ESP_LOG_WARN = ''W''"
| "levelToString ESP_LOG_INFO = ''I''"
| "levelToString ESP_LOG_DEBUG = ''D''"
| "levelToString ESP_LOG_VERBOSE = ''V''"

section \<open>C strings\<close>

text \<open>
  A \<^verbatim>\<open>const char*\<close> is a \<open>string option\<close>: \<open>None\<close> is the null pointer, \<open>Some cs\<close>
  the characters before the terminating NUL. \<open>strncmp_zero a b n\<close> is
  \<^verbatim>\<open>strncmp(a, b, n) == 0\<close>: at most \<open>n\<close> positions are compared and the comparison
  stops at a common terminator.
\<close>

fun strncmp_zero :: "string \<Rightarrow> string \<Rightarrow> nat \<Rightarrow> bool" where
  "strncmp_zero a b 0 = True"
| "strncmp_zero [] [] (Suc n) = True"
| "strncmp_zero [] (y # ys) (Suc n) = False"
| "strncmp_zero (x # xs) [] (Suc n) = False"
| "strncmp_zero (x # xs) (y # ys) (Suc n) = (x = y \<and> strncmp_zero xs ys n)"

text \<open>
  \<^verbatim>\<open>strncpy(dst, src, n - 1); dst[n - 1] = '\0'\<close> into a \<open>n\<close>-byte array leaves the
  C string \<open>take (n - 1) src\<close> there.
\<close>

definition strncpy_terminated :: "nat \<Rightarrow> string \<Rightarrow> string" where
  "strncpy_terminated n src = take (n - 1) src"

section \<open>The logger's state\<close>

type_synonym callback = nat
type_synonym backend = nat

record LogSubscriberMessage =
  msg_level :: esp_log_level_t
  msg_tag :: string
  msg_message :: string

text \<open>
  The fields of class \<^verbatim>\<open>Logger\<close>. A mutex handle is \<open>True\<close> when it was created and
  \<open>False\<close> when it is the null handle. \<open>tagLevels\<close> holds the \<^verbatim>\<open>tagLevelCount_\<close>
  entries in use, in slot order, so the count is the list's length. \<open>subscribers\<close> is
  the array of \<open>MAX_SUBSCRIBERS\<close> slots, \<open>None\<close> for \<^verbatim>\<open>nullptr\<close>.
\<close>

record Logger =
  isLoggingEnabled :: bool
  globalLogLevel :: esp_log_level_t
  backends :: "backend option list"
  backendMutex :: bool
  subscribers :: "callback option list"
  subscriberCount :: nat
  subscriberMutex :: bool
  subscriberQueue :: "LogSubscriberMessage list option"
  tagLevels :: "(string \<times> esp_log_level_t) list"
  tagMutex :: bool
  maxLogsPerSecond :: "32 word"
  rateLimitMutex :: bool
  lastLogTime :: "32 word"
  logCounter :: "32 word"
  droppedLogs :: "32 word"
  mutexTimeouts :: "32 word"

text \<open>
  \<^verbatim>\<open>createMutexSafe\<close>: a mutex is created only when the scheduler has started;
  \<open>created\<close> is the outcome of \<^verbatim>\<open>xSemaphoreCreateMutex\<close>.
\<close>

definition createMutexSafe :: "bool \<Rightarrow> bool \<Rightarrow> bool" where
  "createMutexSafe schedulerStarted created = (if schedulerStarted then created else False)"

text \<open>
  The default constructor; the four flags after \<open>schedulerStarted\<close> are the outcomes of
  the four calls of \<^verbatim>\<open>xSemaphoreCreateMutex\<close>, in the order of the initialiser list.
  Backend 0 stands for the default non-blocking console.
\<close>

definition Logger_ctor :: "bool \<Rightarrow> bool \<Rightarrow> bool \<Rightarrow> bool \<Rightarrow> bool \<Rightarrow> Logger" where
  "Logger_ctor schedulerStarted backendOk subscriberOk tagOk rateOk =
     \<lparr> isLoggingEnabled = True,
       globalLogLevel = ESP_LOG_INFO,
       backends = [Some 0],
       backendMutex = createMutexSafe schedulerStarted backendOk,
       subscribers = replicate MAX_SUBSCRIBERS None,
       subscriberCount = 0,
       subscriberMutex = createMutexSafe schedulerStarted subscriberOk,
       subscriberQueue = None,
       tagLevels = [],
       tagMutex = createMutexSafe schedulerStarted tagOk,
       maxLogsPerSecond = MAX_LOGS_PER_SECOND,
       rateLimitMutex = createMutexSafe schedulerStarted rateOk,
       lastLogTime = 0,
       logCounter = 0,
       droppedLogs = 0,
       mutexTimeouts = 0 \<rparr>"

section \<open>Tag-level table\<close>

text \<open>
  The scan of \<^verbatim>\<open>doSetTagLevel\<close>: the first slot whose tag compares equal over
  \<open>CONFIG_LOG_SUBSCRIBER_TAG_SIZE\<close> characters gets the new level; \<open>None\<close> when no slot
  matches.
\<close>

fun update_tag ::
  "(string \<times> esp_log_level_t) list \<Rightarrow> string \<Rightarrow> esp_log_level_t \<Rightarrow>
   (string \<times> esp_log_level_t) list option" where
  "update_tag [] t l = None"
| "update_tag ((k, v) # es) t l =
     (if strncmp_zero k t CONFIG_LOG_SUBSCRIBER_TAG_SIZE then Some ((k, l) # es)
      else map_option ((#) (k, v)) (update_tag es t l))"

definition doSetTagLevel :: "Logger \<Rightarrow> string \<Rightarrow> nat \<Rightarrow> esp_log_level_t \<Rightarrow> Logger" where
  "doSetTagLevel s t tagLen l =
     (case update_tag (tagLevels s) t l of
        Some es \<Rightarrow> s\<lparr>tagLevels := es\<rparr>
      | None \<Rightarrow>
          if length (tagLevels s) < CONFIG_LOG_MAX_TAGS
          then s\<lparr>tagLevels := tagLevels s @ [(take tagLen t, l)]\<rparr>
          else s)"

text \<open>
  \<open>lockTaken\<close> is the outcome of \<^verbatim>\<open>xSemaphoreTake(tagMutex, ...)\<close>; it is read only
  when the mutex exists. The call \<^verbatim>\<open>esp_log_level_set\<close> changes ESP-IDF's own table
  and no field of the logger.
\<close>

definition setTagLevel :: "bool \<Rightarrow> Logger \<Rightarrow> string option \<Rightarrow> esp_log_level_t \<Rightarrow> Logger" where
  "setTagLevel lockTaken s tg l =
     (case tg of
        None \<Rightarrow> s
      | Some t \<Rightarrow>
          if length t = 0 then s
          else
            let tagLen = (if length t \<ge> CONFIG_LOG_SUBSCRIBER_TAG_SIZE
                          then CONFIG_LOG_SUBSCRIBER_TAG_SIZE - 1 else length t)
            in if \<not> tagMutex s then doSetTagLevel s t tagLen l
               else if lockTaken then doSetTagLevel s t tagLen l
               else s\<lparr>mutexTimeouts := mutexTimeouts s + 1\<rparr>)"

text \<open>The lookup scan shared by \<^verbatim>\<open>getTagLevel\<close> and \<^verbatim>\<open>isLevelEnabledForTag\<close>.\<close>

fun find_tag :: "(string \<times> esp_log_level_t) list \<Rightarrow> string \<Rightarrow> esp_log_level_t option" where
  "find_tag [] t = None"
| "find_tag ((k, v) # es) t =
     (if strncmp_zero k t CONFIG_LOG_SUBSCRIBER_TAG_SIZE then Some v else find_tag es t)"

definition getTagLevel :: "bool \<Rightarrow> Logger \<Rightarrow> string option \<Rightarrow> esp_log_level_t" where
  "getTagLevel lockTaken s tg =
     (case tg of
        None \<Rightarrow> globalLogLevel s
      | Some t \<Rightarrow>
          if \<not> tagMutex s then globalLogLevel s
          else if lockTaken then
            (case find_tag (tagLevels s) t of Some l \<Rightarrow> l | None \<Rightarrow> globalLogLevel s)
          else globalLogLevel s)"

definition isLevelEnabledForTag :: "bool \<Rightarrow> Logger \<Rightarrow> string option \<Rightarrow> esp_log_level_t \<Rightarrow> bool" where
  "isLevelEnabledForTag lockTaken s tg lvl =
     (if \<not> isLoggingEnabled s then False
      else if lvl = ESP_LOG_NONE then False
      else case tg of
        None \<Rightarrow> level_le lvl (globalLogLevel s)
      | Some t \<Rightarrow>
          let effectiveLevel =
                (if tagMutex s then
                   (if lockTaken then
                      (case find_tag (tagLevels s) t of
                         Some l \<Rightarrow> l | None \<Rightarrow> globalLogLevel s)
                    else globalLogLevel s)
                 else globalLogLevel s)
          in level_le lvl effectiveLevel)"

section \<open>Rate limiter\<close>

text \<open>
  \<open>lockTaken\<close> is the outcome of \<^verbatim>\<open>xSemaphoreTake(rateLimitMutex, ...)\<close> and
  \<open>currentTime\<close> the value of \<^verbatim>\<open>millis()\<close>; all counters are \<^verbatim>\<open>uint32_t\<close>.
\<close>

definition checkRateLimit :: "bool \<Rightarrow> 32 word \<Rightarrow> Logger \<Rightarrow> bool \<times> Logger" where
  "checkRateLimit lockTaken currentTime s =
     (let maxPerSec = maxLogsPerSecond s in
      if maxPerSec = 0 then (True, s)
      else if \<not> rateLimitMutex s then (True, s)
      else if lockTaken then
        (let elapsed = currentTime - lastLogTime s in
         if elapsed \<ge> RATE_LIMIT_WINDOW_MS
         then (True, s\<lparr>lastLogTime := currentTime, logCounter := 1\<rparr>)
         else if logCounter s < maxPerSec
         then (True, s\<lparr>logCounter := logCounter s + 1\<rparr>)
         else (False, s\<lparr>droppedLogs := droppedLogs s + 1\<rparr>))
      else (False, s\<lparr>mutexTimeouts := mutexTimeouts s + 1\<rparr>))"

section \<open>Subscriber registry\<close>

text \<open>The index of the first slot holding \<open>x\<close>, as the scanning loops find it.\<close>

fun index_of :: "'a list \<Rightarrow> 'a \<Rightarrow> nat option" where
  "index_of [] x = None"
| "index_of (y # ys) x = (if y = x then Some 0 else map_option Suc (index_of ys x))"

text \<open>
  \<open>lockTaken\<close> is the outcome of \<^verbatim>\<open>xSemaphoreTake(subscriberMutex, ...)\<close>, read only
  when the mutex exists.
\<close>

definition addLogSubscriber :: "bool \<Rightarrow> Logger \<Rightarrow> callback option \<Rightarrow> bool \<times> Logger" where
  "addLogSubscriber lockTaken s cb =
     (case cb of
        None \<Rightarrow> (False, s)
      | Some c \<Rightarrow>
          if subscriberMutex s \<and> \<not> lockTaken then (False, s)
          else
            let count = subscriberCount s in
            if count < MAX_SUBSCRIBERS then
              (let isDuplicate = (index_of (take count (subscribers s)) (Some c) \<noteq> None) in
               if \<not> isDuplicate
               then (True, s\<lparr>subscribers := (subscribers s)[count := Some c],
                              subscriberCount := count + 1\<rparr>)
               else (False, s))
            else (False, s))"

text \<open>
  The inner loop of \<^verbatim>\<open>removeLogSubscriber\<close>:
  \<^verbatim>\<open>for (j = i; j < count - 1; j++) subscribers[j] = subscribers[j + 1];\<close>
\<close>

function shift_down :: "callback option list \<Rightarrow> nat \<Rightarrow> nat \<Rightarrow> callback option list" where
  "shift_down subs j count =
     (if j + 1 < count then shift_down (subs[j := subs ! (j + 1)]) (j + 1) count else subs)"
  by pat_completeness auto
termination
  by (relation "measure (\<lambda>(subs, j, count). count - j)") auto

declare shift_down.simps [simp del]

definition removeLogSubscriber :: "bool \<Rightarrow> Logger \<Rightarrow> callback option \<Rightarrow> bool \<times> Logger" where
  "removeLogSubscriber lockTaken s cb =
     (case cb of
        None \<Rightarrow> (False, s)
      | Some c \<Rightarrow>
          if subscriberMutex s \<and> \<not> lockTaken then (False, s)
          else
            (let count = subscriberCount s in
             (case index_of (take count (subscribers s)) (Some c) of
                None \<Rightarrow> (False, s)
              | Some i \<Rightarrow>
                  (let subs = shift_down (subscribers s) i count;
                       count' = count - 1
                   in (True, s\<lparr>subscribers := subs[count' := None],
                                  subscriberCount := count'\<rparr>)))))"

section \<open>Observable effects\<close>

text \<open>
  What a logging call does outside the logger's own fields: \<open>BackendWrite b buf len\<close> is
  the call \<^verbatim>\<open>backend->write(buf, len)\<close> on backend \<open>b\<close>, with \<open>buf\<close> the C string held by
  the buffer and \<open>len\<close> the length argument; \<open>SubscriberCall\<close> is a callback invoked on the
  caller's thread; \<open>EspLogWrite\<close> is the fallback \<^verbatim>\<open>esp_log_write(level, tag, "%s", text)\<close>.
\<close>

datatype event =
  BackendWrite backend string nat
| SubscriberCall callback esp_log_level_t "string option" "string option"
| EspLogWrite esp_log_level_t "string option" string

fun is_backend_write :: "event \<Rightarrow> bool" where
  "is_backend_write (BackendWrite b buf len) = True"
| "is_backend_write e = False"

text \<open>\<^verbatim>\<open>xQueueSend(queue, &msg, 0)\<close>: the item is dropped when the queue is full.\<close>

definition xQueueSend :: "LogSubscriberMessage list \<Rightarrow> LogSubscriberMessage \<Rightarrow> LogSubscriberMessage list" where
  "xQueueSend q m = (if length q < CONFIG_LOG_SUBSCRIBER_QUEUE_SIZE then q @ [m] else q)"

fun invoke_callbacks ::
  "callback option list \<Rightarrow> esp_log_level_t \<Rightarrow> string option \<Rightarrow> string option \<Rightarrow> event list" where
  "invoke_callbacks [] lvl tg m = []"
| "invoke_callbacks (None # cs) lvl tg m = invoke_callbacks cs lvl tg m"
| "invoke_callbacks (Some c # cs) lvl tg m = SubscriberCall c lvl tg m # invoke_callbacks cs lvl tg m"

text \<open>
  \<open>inIsr\<close> is \<^verbatim>\<open>xPortInIsrContext()\<close> and \<open>lockTaken\<close> the outcome of taking the
  subscriber mutex on the synchronous fallback path.
\<close>

definition notifySubscribers ::
  "bool \<Rightarrow> bool \<Rightarrow> Logger \<Rightarrow> esp_log_level_t \<Rightarrow> string option \<Rightarrow> string option \<Rightarrow>
   Logger \<times> event list" where
  "notifySubscribers inIsr lockTaken s lvl tg m =
     (if subscriberCount s = 0 then (s, [])
      else if inIsr then (s, [])
      else case subscriberQueue s of
        Some q \<Rightarrow>
          let msg = \<lparr> msg_level = lvl,
                      msg_tag = (case tg of
                                   Some t \<Rightarrow> strncpy_terminated CONFIG_LOG_SUBSCRIBER_TAG_SIZE t
                                 | None \<Rightarrow> []),
                      msg_message = (case m of
                                   Some t \<Rightarrow> strncpy_terminated CONFIG_LOG_SUBSCRIBER_MSG_SIZE t
                                 | None \<Rightarrow> []) \<rparr>
          in (s\<lparr>subscriberQueue := Some (xQueueSend q msg)\<rparr>, [])
      | None \<Rightarrow>
          if subscriberMutex s \<and> lockTaken
          then (s, invoke_callbacks (take (subscriberCount s) (subscribers s)) lvl tg m)
          else (s, []))"

section \<open>Backends\<close>

fun write_each :: "backend option list \<Rightarrow> string \<Rightarrow> nat \<Rightarrow> event list" where
  "write_each [] buf len = []"
| "write_each (None # bs) buf len = write_each bs buf len"
| "write_each (Some b # bs) buf len = BackendWrite b buf len # write_each bs buf len"

definition writeToBackends :: "bool \<Rightarrow> Logger \<Rightarrow> string \<Rightarrow> nat \<Rightarrow> event list" where
  "writeToBackends lockTaken s buf len =
     (if \<not> backendMutex s then write_each (backends s) buf len
      else if lockTaken then write_each (backends s) buf len
      else [])"

section \<open>Formatting\<close>

text \<open>Decimal digits of an unsigned value, as \<^verbatim>\<open>%lu\<close> prints them.\<close>

definition digit_char :: "nat \<Rightarrow> char" where
  "digit_char d = ''0123456789'' ! d"

fun dec :: "nat \<Rightarrow> string" where
  "dec n = (if n < 10 then [digit_char n] else dec (n div 10) @ [digit_char (n mod 10)])"

declare dec.simps [simp del]

text \<open>
  \<^verbatim>\<open>snprintf(buf, n, ...)\<close> stores at most \<open>n - 1\<close> characters of the full text and
  returns the length of the full text.
\<close>

definition snprintf_buf :: "nat \<Rightarrow> string \<Rightarrow> string" where
  "snprintf_buf n txt = take (n - 1) txt"

text \<open>The text of \<^verbatim>\<open>"[%lu][%s][%s] %s: %s\r\n"\<close>.\<close>

definition record_text ::
  "32 word \<Rightarrow> string option \<Rightarrow> esp_log_level_t \<Rightarrow> string option \<Rightarrow> string \<Rightarrow> string" where
  "record_text now task lvl tg body =
     ''['' @ dec (unat now) @ '']['' @ (case task of Some n \<Rightarrow> n | None \<Rightarrow> ''?'') @ ''][''
       @ levelToString lvl @ ''] '' @ (case tg of Some t \<Rightarrow> t | None \<Rightarrow> ''?'') @ '': ''
       @ body @ [CHR 0x0D, CHR 0x0A]"

section \<open>Logging calls\<close>

text \<open>
  What one logging call reads from its surroundings: the outcome of each bounded lock
  attempt, the two readings of \<^verbatim>\<open>millis()\<close>, whether \<^verbatim>\<open>BufferPool::acquire\<close> returned
  a buffer (a pool slot or a heap block) for the formatted text and for the full record,
  \<^verbatim>\<open>xPortInIsrContext()\<close> and \<^verbatim>\<open>pcTaskGetName(NULL)\<close>.
\<close>

record log_env =
  tagLockTaken :: bool
  rateLockTaken :: bool
  rateMillis :: "32 word"
  formatBufferOk :: bool
  inIsrContext :: bool
  subscriberLockTaken :: bool
  fullMessageOk :: bool
  recordMillis :: "32 word"
  taskName :: "string option"
  backendLockTaken :: bool

text \<open>
  A \<^verbatim>\<open>va_list\<close> is the function from a format string to its expansion.
  \<^verbatim>\<open>vsnprintf\<close> reads the format string; with a null format it reads address 0, which
  the target answers with a LoadProhibited exception.
\<close>

type_synonym va_list = "string \<Rightarrow> string"

datatype fault = LoadProhibited

definition logV ::
  "log_env \<Rightarrow> Logger \<Rightarrow> esp_log_level_t \<Rightarrow> string option \<Rightarrow> string option \<Rightarrow> va_list \<Rightarrow>
   fault + (Logger \<times> event list)" where
  "logV env s lvl tg fmt args =
     (if \<not> isLevelEnabledForTag (tagLockTaken env) s tg lvl then Inr (s, [])
      else case checkRateLimit (rateLockTaken env) (rateMillis env) s of
        (allowed, s1) \<Rightarrow>
          if \<not> allowed then Inr (s1, [])
          else if \<not> formatBufferOk env then Inr (s1, [])
          else (case fmt of
             None \<Rightarrow> Inl LoadProhibited
           | Some f \<Rightarrow>
               (let formatBuffer = snprintf_buf CONFIG_LOG_BUFFER_SIZE (args f) in
                case notifySubscribers (inIsrContext env) (subscriberLockTaken env) s1 lvl tg
                       (Some formatBuffer) of
                  (s2, notified) \<Rightarrow>
                    if fullMessageOk env then
                      (let txt = record_text (recordMillis env) (taskName env) lvl tg formatBuffer;
                           fullMessage = snprintf_buf CONFIG_LOG_BUFFER_SIZE txt;
                           len = (if length txt \<ge> CONFIG_LOG_BUFFER_SIZE
                                  then CONFIG_LOG_BUFFER_SIZE - 1 else length txt)
                       in Inr (s2, notified @
                                   writeToBackends (backendLockTaken env) s2 fullMessage len))
                    else Inr (s2, notified @ [EspLogWrite lvl tg formatBuffer]))))"

text \<open>
  \<^verbatim>\<open>log\<close> filters once itself, with its own lock attempt \<open>outerLockTaken\<close>, and then
  calls \<^verbatim>\<open>logV\<close>, which filters again.
\<close>

definition log ::
  "bool \<Rightarrow> log_env \<Rightarrow> Logger \<Rightarrow> esp_log_level_t \<Rightarrow> string option \<Rightarrow> string option \<Rightarrow> va_list \<Rightarrow>
   fault + (Logger \<times> event list)" where
  "log outerLockTaken env s lvl tg fmt args =
     (if \<not> isLevelEnabledForTag outerLockTaken s tg lvl then Inr (s, [])
      else logV env s lvl tg fmt args)"

definition logDirect ::
  "log_env \<Rightarrow> Logger \<Rightarrow> esp_log_level_t \<Rightarrow> string option \<Rightarrow> string option \<Rightarrow>
   Logger \<times> event list" where
  "logDirect env s lvl tg message =
     (case message of
        None \<Rightarrow> (s, [])
      | Some m \<Rightarrow>
          if \<not> isLevelEnabledForTag (tagLockTaken env) s tg lvl then (s, [])
          else (case notifySubscribers (inIsrContext env) (subscriberLockTaken env) s lvl tg
                       (Some m) of
             (s1, notified) \<Rightarrow>
               if fullMessageOk env then
                 (let txt = record_text (recordMillis env) (taskName env) lvl tg m;
                      fullMessage = snprintf_buf CONFIG_LOG_BUFFER_SIZE txt;
                      len = length txt
                  in (s1, notified @
                          writeToBackends (backendLockTaken env) s1 fullMessage len))
               else (s1, notified @ [EspLogWrite lvl tg m])))"

section \<open>Non-blocking console backend\<close>

text \<open>
  The serial port: \<^verbatim>\<open>Serial.availableForWrite()\<close> is the free space of the transmit
  buffer; \<^verbatim>\<open>Serial.write(buf, n)\<close> hands the \<open>n\<close> bytes to the port and returns \<open>n\<close>.
\<close>

record HardwareSerial =
  availableForWrite :: nat
  transmitted :: string

definition Serial_write :: "HardwareSerial \<Rightarrow> string \<Rightarrow> HardwareSerial \<times> nat" where
  "Serial_write ser bytes =
     (ser\<lparr>availableForWrite := availableForWrite ser - length bytes,
          transmitted := transmitted ser @ bytes\<rparr>, length bytes)"

record NonBlockingConsoleBackend =
  droppedBytes :: "32 word"
  droppedMessages :: "32 word"
  partialWrites :: "32 word"

definition MIN_BUFFER_SPACE :: nat where
  "MIN_BUFFER_SPACE = 20"

definition TRUNCATION_MARKER :: string where
  "TRUNCATION_MARKER = ''...'' @ [CHR 0x0D, CHR 0x0A]"

definition TRUNCATION_MARKER_LEN :: nat where
  "TRUNCATION_MARKER_LEN = 5"

text \<open>
  \<^verbatim>\<open>write(const char* logMessage, size_t length)\<close>: the argument pair is the byte
  sequence \<open>m\<close>, of length \<open>length m\<close>, or \<open>None\<close> for a null pointer. The subtraction
  \<^verbatim>\<open>available - TRUNCATION_MARKER_LEN\<close> is reached only with
  \<open>available \<ge> MIN_BUFFER_SPACE\<close>, where it cannot wrap.
\<close>

definition NonBlockingConsoleBackend_write ::
  "HardwareSerial \<Rightarrow> NonBlockingConsoleBackend \<Rightarrow> string option \<Rightarrow>
   HardwareSerial \<times> NonBlockingConsoleBackend" where
  "NonBlockingConsoleBackend_write ser b logMessage =
     (case logMessage of
        None \<Rightarrow> (ser, b)
      | Some m \<Rightarrow>
          if length m = 0 then (ser, b)
          else
            (let available = availableForWrite ser in
             if available < MIN_BUFFER_SPACE then
               (ser, b\<lparr>droppedMessages := droppedMessages b + 1,
                       droppedBytes := droppedBytes b + of_nat (length m)\<rparr>)
             else if available \<ge> length m then
               (case Serial_write ser m of
                  (ser1, written) \<Rightarrow>
                    (ser1, if written < length m
                           then b\<lparr>droppedBytes := droppedBytes b + of_nat (length m - written)\<rparr>
                           else b))
             else
               (let toWrite = available - TRUNCATION_MARKER_LEN in
                if toWrite > 0 then
                  (case Serial_write ser (take toWrite m) of
                     (ser1, written) \<Rightarrow>
                       (case Serial_write ser1 TRUNCATION_MARKER of
                          (ser2, w2) \<Rightarrow>
                            (let b1 = b\<lparr>partialWrites := partialWrites b + 1\<rparr> in
                             (ser2, if written < length m
                                    then b1\<lparr>droppedBytes :=
                                              droppedBytes b1 + of_nat (length m - written)\<rparr>
                                    else b1))))
                else
                  (ser, b\<lparr>droppedMessages := droppedMessages b + 1,
                          droppedBytes := droppedBytes b + of_nat (length m)\<rparr>))))"

section \<open>Configuration setters\<close>

definition enableLogging :: "Logger \<Rightarrow> bool \<Rightarrow> Logger" where
  "enableLogging s enable = s\<lparr>isLoggingEnabled := enable\<rparr>"

definition setLogLevel :: "Logger \<Rightarrow> esp_log_level_t \<Rightarrow> Logger" where
  "setLogLevel s lvl = s\<lparr>globalLogLevel := lvl\<rparr>"

definition setMaxLogsPerSecond :: "Logger \<Rightarrow> 32 word \<Rightarrow> Logger" where
  "setMaxLogsPerSecond s maxLogs = s\<lparr>maxLogsPerSecond := maxLogs\<rparr>"

section \<open>Notions used to state the properties\<close>

text \<open>Every stored tag fits its \<open>CONFIG_LOG_SUBSCRIBER_TAG_SIZE\<close>-byte array with its terminator.\<close>

definition tags_fit :: "Logger \<Rightarrow> bool" where
  "tags_fit s = list_all (\<lambda>e. length (fst e) < CONFIG_LOG_SUBSCRIBER_TAG_SIZE) (tagLevels s)"

text \<open>
  The effective threshold in the specification's words: the override of the tag when the
  table has an entry for it, the global level otherwise.
\<close>

definition effective_threshold :: "Logger \<Rightarrow> string option \<Rightarrow> esp_log_level_t" where
  "effective_threshold s tg =
     (case tg of
        None \<Rightarrow> globalLogLevel s
      | Some t \<Rightarrow> (case map_of (tagLevels s) t of Some l \<Rightarrow> l | None \<Rightarrow> globalLogLevel s))"

text \<open>The tag table's invariant: stored tags fit, no tag is stored twice, the capacity holds.\<close>

definition tag_table_inv :: "Logger \<Rightarrow> bool" where
  "tag_table_inv s =
     (tags_fit s \<and> distinct (map fst (tagLevels s)) \<and> length (tagLevels s) \<le> CONFIG_LOG_MAX_TAGS)"

text \<open>The callbacks in use, and the registry's invariant.\<close>

definition registered :: "Logger \<Rightarrow> callback option list" where
  "registered s = take (subscriberCount s) (subscribers s)"

definition registry_inv :: "Logger \<Rightarrow> bool" where
  "registry_inv s =
     (length (subscribers s) = MAX_SUBSCRIBERS \<and> subscriberCount s \<le> MAX_SUBSCRIBERS \<and>
      list_all (\<lambda>c. c \<noteq> None) (registered s) \<and> distinct (registered s))"

section \<open>Example states\<close>

text \<open>A logger built before the scheduler starts, limited to one record per window.\<close>

definition early_logger :: Logger where
  "early_logger = setMaxLogsPerSecond (Logger_ctor False True True True True) 1"

text \<open>
  A logger with its mutexes, limited to one record per window, after admitting a record
  100 ms before the millisecond counter overflows.
\<close>

definition late_logger :: Logger where
  "late_logger =
     snd (checkRateLimit True 4294967196 (setMaxLogsPerSecond (Logger_ctor True True True True True) 1))"

text \<open>A logger with the tag \<open>X\<close> set to ERROR, built before and after the scheduler starts.\<close>

definition early_tagged :: Logger where
  "early_tagged = setTagLevel True (Logger_ctor False True True True True) (Some ''X'') ESP_LOG_ERROR"

definition late_tagged :: Logger where
  "late_tagged = setTagLevel True (Logger_ctor True True True True True) (Some ''X'') ESP_LOG_ERROR"

text \<open>A logger whose tag table holds 32 entries, \<open>t0\<close> to \<open>t31\<close>.\<close>

definition full_table :: "(string \<times> esp_log_level_t) list" where
  "full_table = map (\<lambda>i. (''t'' @ dec i, ESP_LOG_INFO)) [0..<32]"

definition full_logger :: Logger where
  "full_logger = (Logger_ctor True True True True True)\<lparr>tagLevels := full_table\<rparr>"

text \<open>A tag of 32 characters.\<close>

definition long_tag :: string where
  "long_tag = replicate 32 (CHR ''a'')"

text \<open>
  A call where every lock is taken and every buffer obtained, and one where the backend
  lock times out.
\<close>

definition calm_env :: log_env where
  "calm_env =
     \<lparr> tagLockTaken = True, rateLockTaken = True, rateMillis = 5000, formatBufferOk = True,
       inIsrContext = False, subscriberLockTaken = True, fullMessageOk = True,
       recordMillis = 5000, taskName = Some ''main'', backendLockTaken = True \<rparr>"

definition busy_env :: log_env where
  "busy_env = calm_env\<lparr>backendLockTaken := False\<rparr>"

text \<open>A logger with its mutexes after registering the callbacks \<open>cs\<close> in order.\<close>

definition with_subscribers :: "callback list \<Rightarrow> Logger" where
  "with_subscribers cs =
     foldl (\<lambda>s c. snd (addLogSubscriber True s (Some c))) (Logger_ctor True True True True True) cs"

text \<open>One subscriber and the notification queue created, empty.\<close>

definition queue_logger :: Logger where
  "queue_logger = (with_subscribers [7])\<lparr>subscriberQueue := Some []\<rparr>"

text \<open>A serial port with \<open>n\<close> bytes of free transmit buffer, and a backend with fresh counters.\<close>

definition serial_with :: "nat \<Rightarrow> HardwareSerial" where
  "serial_with n = \<lparr> availableForWrite = n, transmitted = [] \<rparr>"

definition fresh_backend :: NonBlockingConsoleBackend where
  "fresh_backend = \<lparr> droppedBytes = 0, droppedMessages = 0, partialWrites = 0 \<rparr>"

section \<open>Rate limiter: properties\<close>

lemma word32_succ: "(x::32 word) < m \<Longrightarrow> unat (x + 1) = unat x + 1"
proof -
  assume "x < m"
  then have "unat x < unat m" by (simp add: word_less_nat_alt)
  moreover have "unat m < 2 ^ 32" using unsigned_less [of m] by simp
  ultimately have "unat x + 1 < 2 ^ 32" by simp
  then show ?thesis by (simp add: unat_word_ariths)
qed

lemma early_logger_eq:
  "early_logger = (Logger_ctor False True True True True)\<lparr>maxLogsPerSecond := 1\<rparr>"
  by (simp add: early_logger_def setMaxLogsPerSecond_def)

lemma late_logger_eq:
  "late_logger =
     (Logger_ctor True True True True True)\<lparr>maxLogsPerSecond := 1, lastLogTime := 4294967196, logCounter := 1\<rparr>"
  by (simp add: late_logger_def checkRateLimit_def setMaxLogsPerSecond_def Logger_ctor_def
      createMutexSafe_def RATE_LIMIT_WINDOW_MS_def Let_def)

text \<open>
  C2 (amended). When \<open>maxLogsPerSecond\<close> is 0 every call is admitted. Otherwise, when
  the rate-limit mutex exists: with the lock taken, an elapsed time of at least the window
  (1000 ms) restarts the window at the current time with an accepted count of 1 and admits;
  else an accepted count below the maximum is incremented and the call admitted; else the
  dropped-log counter is incremented and the call rejected; with the lock not taken within
  its timeout, the call is rejected and the timeout counter is incremented.
\<close>

theorem checkRateLimit_fixed_window:
  "(maxLogsPerSecond s = 0 \<longrightarrow> checkRateLimit lk now s = (True, s)) \<and>
   (maxLogsPerSecond s \<noteq> 0 \<and> rateLimitMutex s \<longrightarrow>
     (lk \<and> RATE_LIMIT_WINDOW_MS \<le> now - lastLogTime s \<longrightarrow>
        checkRateLimit lk now s = (True, s\<lparr>lastLogTime := now, logCounter := 1\<rparr>)) \<and>
     (lk \<and> now - lastLogTime s < RATE_LIMIT_WINDOW_MS \<and> logCounter s < maxLogsPerSecond s \<longrightarrow>
        checkRateLimit lk now s = (True, s\<lparr>logCounter := logCounter s + 1\<rparr>)
        \<and> unat (logCounter s + 1) = unat (logCounter s) + 1) \<and>
     (lk \<and> now - lastLogTime s < RATE_LIMIT_WINDOW_MS \<and> \<not> logCounter s < maxLogsPerSecond s \<longrightarrow>
        checkRateLimit lk now s = (False, s\<lparr>droppedLogs := droppedLogs s + 1\<rparr>)) \<and>
     (\<not> lk \<longrightarrow> checkRateLimit lk now s = (False, s\<lparr>mutexTimeouts := mutexTimeouts s + 1\<rparr>)))"
  by (auto simp: checkRateLimit_def Let_def not_le word32_succ)

text \<open>The third case, on a full window.\<close>

theorem checkRateLimit_fixed_window_witness:
  "maxLogsPerSecond late_logger \<noteq> 0 \<and> rateLimitMutex late_logger \<and>
   4294967196 - lastLogTime late_logger < RATE_LIMIT_WINDOW_MS \<and>
   \<not> logCounter late_logger < maxLogsPerSecond late_logger \<and>
   checkRateLimit True 4294967196 late_logger = (False, late_logger\<lparr>droppedLogs := 1\<rparr>)"
  using checkRateLimit_fixed_window [of late_logger True 4294967196]
  by (simp add: late_logger_eq Logger_ctor_def createMutexSafe_def RATE_LIMIT_WINDOW_MS_def)

text \<open>
  C2 as stated fails on a logger built before the scheduler starts: with a positive
  maximum, inside the window and below the maximum, the call is admitted and the accepted
  count is not incremented, and the next call is admitted again.
\<close>

theorem checkRateLimit_counts_without_mutex_counterexample:
  "maxLogsPerSecond early_logger \<noteq> 0 \<and>
   5 - lastLogTime early_logger < RATE_LIMIT_WINDOW_MS \<and>
   logCounter early_logger < maxLogsPerSecond early_logger \<and>
   checkRateLimit True 5 early_logger \<noteq>
     (True, early_logger\<lparr>logCounter := logCounter early_logger + 1\<rparr>) \<and>
   fst (checkRateLimit True 5 (snd (checkRateLimit True 5 early_logger)))"
  by (simp add: early_logger_eq checkRateLimit_def Logger_ctor_def
      createMutexSafe_def RATE_LIMIT_WINDOW_MS_def Let_def)

text \<open>
  C7 (amended). The elapsed time is the 32-bit difference of the two timestamps modulo
  \<open>2 ^ 32\<close>, never negative; when the millisecond counter has overflowed, so that the
  current time is numerically below the window start, it is \<open>2 ^ 32\<close> minus their distance,
  the time that really passed, and positive. With the lock taken, the window is restarted
  exactly when this value is at least 1000; below 1000 the window start is kept, also after
  an overflow.
\<close>

theorem checkRateLimit_elapsed_wraps:
  "0 \<le> uint (now - lastLogTime s) \<and> uint (now - lastLogTime s) < 2 ^ 32 \<and>
   uint (now - lastLogTime s) = (uint now - uint (lastLogTime s)) mod 2 ^ 32 \<and>
   (now < lastLogTime s \<longrightarrow>
      uint (now - lastLogTime s) = 2 ^ 32 - (uint (lastLogTime s) - uint now) \<and>
      0 < uint (now - lastLogTime s)) \<and>
   (rateLimitMutex s \<and> maxLogsPerSecond s \<noteq> 0 \<longrightarrow>
      (1000 \<le> uint (now - lastLogTime s) \<longrightarrow>
         checkRateLimit True now s = (True, s\<lparr>lastLogTime := now, logCounter := 1\<rparr>)) \<and>
      (uint (now - lastLogTime s) < 1000 \<longrightarrow>
         lastLogTime (snd (checkRateLimit True now s)) = lastLogTime s))"
proof -
  have bound: "uint (now - lastLogTime s) < 2 ^ 32"
    using unsigned_less [of "now - lastLogTime s"] by simp
  have modular: "uint (now - lastLogTime s) = (uint now - uint (lastLogTime s)) mod 2 ^ 32"
    by (simp add: uint_word_ariths)
  have wrapped: "uint (now - lastLogTime s) = 2 ^ 32 - (uint (lastLogTime s) - uint now)
      \<and> 0 < uint (now - lastLogTime s)" if "now < lastLogTime s"
  proof -
    have "uint (lastLogTime s) < 2 ^ 32" using unsigned_less [of "lastLogTime s"] by simp
    moreover have "uint now < uint (lastLogTime s)" using that by (simp add: word_less_def)
    moreover from this
    have "uint (now - lastLogTime s) = uint now - uint (lastLogTime s) + 2 ^ 32"
      by (simp add: uint_sub_if')
    ultimately show ?thesis using uint_nonnegative [of now] by arith
  qed
  have window: "(RATE_LIMIT_WINDOW_MS \<le> now - lastLogTime s) = (1000 \<le> uint (now - lastLogTime s))"
    by (simp add: RATE_LIMIT_WINDOW_MS_def word_le_def)
  have reset: "checkRateLimit True now s = (True, s\<lparr>lastLogTime := now, logCounter := 1\<rparr>)"
    if "rateLimitMutex s" "maxLogsPerSecond s \<noteq> 0" "1000 \<le> uint (now - lastLogTime s)"
    using that window by (simp add: checkRateLimit_def Let_def)
  have keep: "lastLogTime (snd (checkRateLimit True now s)) = lastLogTime s"
    if "rateLimitMutex s" "maxLogsPerSecond s \<noteq> 0" "uint (now - lastLogTime s) < 1000"
    using that window by (simp add: checkRateLimit_def Let_def)
  from uint_nonnegative [of "now - lastLogTime s"] bound modular wrapped reset keep
  show ?thesis by blast
qed

text \<open>150 ms and 1000 ms after a window opened 100 ms before the overflow.\<close>

theorem checkRateLimit_elapsed_wraps_witness:
  "(50 :: 32 word) < lastLogTime late_logger \<and>
   uint (50 - lastLogTime late_logger) = 150 \<and>
   rateLimitMutex late_logger \<and> maxLogsPerSecond late_logger \<noteq> 0 \<and>
   lastLogTime (snd (checkRateLimit True 50 late_logger)) = lastLogTime late_logger \<and>
   (900 :: 32 word) < lastLogTime late_logger \<and>
   uint (900 - lastLogTime late_logger) = 1000 \<and>
   checkRateLimit True 900 late_logger = (True, late_logger\<lparr>lastLogTime := 900, logCounter := 1\<rparr>)"
  using checkRateLimit_elapsed_wraps [of 50 late_logger]
    checkRateLimit_elapsed_wraps [of 900 late_logger]
  by (simp add: late_logger_eq Logger_ctor_def createMutexSafe_def)

text \<open>
  C7 as stated fails: 150 ms after a window opened 100 ms before the overflow, the timer
  has wrapped, yet the call takes the rejecting branch, not the window reset.
\<close>

theorem checkRateLimit_wrapped_timer_counterexample:
  "(50 :: 32 word) < lastLogTime late_logger \<and>
   checkRateLimit True 50 late_logger = (False, late_logger\<lparr>droppedLogs := 1\<rparr>)"
  by (simp add: late_logger_eq checkRateLimit_def Logger_ctor_def createMutexSafe_def
      RATE_LIMIT_WINDOW_MS_def Let_def)

text \<open>
  C8. A logger constructed before the scheduler starts has no rate-limit mutex; without
  the mutex \<open>checkRateLimit\<close> returns true for every maximum and leaves every field,
  the accepted count and the dropped-log counter among them, as it was; with the mutex, a
  lock timeout rejects the call.
\<close>

theorem checkRateLimit_without_mutex:
  "rateLimitMutex (Logger_ctor False b1 b2 b3 b4) = False \<and>
   (\<not> rateLimitMutex s \<longrightarrow> checkRateLimit lk now s = (True, s)) \<and>
   (rateLimitMutex s \<and> maxLogsPerSecond s \<noteq> 0 \<longrightarrow> \<not> fst (checkRateLimit False now s))"
  by (simp add: checkRateLimit_def Logger_ctor_def createMutexSafe_def Let_def)

theorem checkRateLimit_without_mutex_witness:
  "\<not> rateLimitMutex early_logger \<and> maxLogsPerSecond early_logger = 1 \<and>
   checkRateLimit False 7 early_logger = (True, early_logger) \<and>
   rateLimitMutex late_logger \<and> maxLogsPerSecond late_logger \<noteq> 0 \<and>
   \<not> fst (checkRateLimit False 7 late_logger)"
  using checkRateLimit_without_mutex [where s = early_logger and lk = False and now = 7]
    checkRateLimit_without_mutex [where s = late_logger and lk = False and now = 7]
  by (simp add: early_logger_eq late_logger_eq Logger_ctor_def createMutexSafe_def)

section \<open>Tag-level table: properties\<close>

lemma strncmp_zero_short: "length a < n \<Longrightarrow> strncmp_zero a b n = (a = b)"
  by (induction a b n rule: strncmp_zero.induct) auto

lemma find_tag_map_of:
  "list_all (\<lambda>e. length (fst e) < CONFIG_LOG_SUBSCRIBER_TAG_SIZE) es \<Longrightarrow> find_tag es t = map_of es t"
  by (induction es) (auto simp: strncmp_zero_short)

lemma update_tag_None:
  "list_all (\<lambda>e. length (fst e) < CONFIG_LOG_SUBSCRIBER_TAG_SIZE) es \<Longrightarrow>
   (update_tag es t l = None) = (t \<notin> fst ` set es)"
  by (induction es) (auto simp: strncmp_zero_short split: if_splits)

lemma update_tag_Some:
  "list_all (\<lambda>e. length (fst e) < CONFIG_LOG_SUBSCRIBER_TAG_SIZE) es \<Longrightarrow>
   distinct (map fst es) \<Longrightarrow> t \<in> fst ` set es \<Longrightarrow>
   update_tag es t l = Some (map (\<lambda>e. if fst e = t then (t, l) else e) es)"
proof (induction es)
  case Nil
  then show ?case by simp
next
  case (Cons e es)
  obtain k v where e: "e = (k, v)" by (cases e)
  show ?case
  proof (cases "k = t")
    case True
    with Cons.prems e have "t \<notin> fst ` set es" by auto
    then have "map (\<lambda>e. if fst e = t then (t, l) else e) es = es"
      by (induction es) auto
    with True e Cons.prems show ?thesis by (simp add: strncmp_zero_short)
  next
    case False
    with Cons e show ?thesis by (auto simp: strncmp_zero_short)
  qed
qed

lemma tags_fit_ctor: "tags_fit (Logger_ctor a b1 b2 b3 b4)"
  by (simp add: tags_fit_def Logger_ctor_def)

lemma update_tag_fits:
  "list_all (\<lambda>e. length (fst e) < n) es \<Longrightarrow> update_tag es t l = Some es' \<Longrightarrow>
   list_all (\<lambda>e. length (fst e) < n) es'"
  by (induction es arbitrary: es') (auto split: if_splits)

lemma tags_fit_setTagLevel: "tags_fit s \<Longrightarrow> tags_fit (setTagLevel lk s tg l)"
  by (auto simp: tags_fit_def setTagLevel_def doSetTagLevel_def Let_def
      CONFIG_LOG_SUBSCRIBER_TAG_SIZE_def
      split: option.splits dest: update_tag_fits)


lemma early_tagged_eq:
  "early_tagged = (Logger_ctor False True True True True)\<lparr>tagLevels := [(''X'', ESP_LOG_ERROR)]\<rparr>"
  by (simp add: early_tagged_def setTagLevel_def doSetTagLevel_def Logger_ctor_def
      createMutexSafe_def CONFIG_LOG_MAX_TAGS_def CONFIG_LOG_SUBSCRIBER_TAG_SIZE_def)

lemma late_tagged_eq:
  "late_tagged = (Logger_ctor True True True True True)\<lparr>tagLevels := [(''X'', ESP_LOG_ERROR)]\<rparr>"
  by (simp add: late_tagged_def setTagLevel_def doSetTagLevel_def Logger_ctor_def
      createMutexSafe_def CONFIG_LOG_MAX_TAGS_def CONFIG_LOG_SUBSCRIBER_TAG_SIZE_def)

lemma logV_written_enabled:
  "logV env s lvl tg fmt args = Inr (s', evs) \<Longrightarrow> evs \<noteq> [] \<Longrightarrow>
   isLevelEnabledForTag (tagLockTaken env) s tg lvl"
  by (auto simp: logV_def split: if_splits)

lemma log_written_enabled:
  "log outer env s lvl tg fmt args = Inr (s', evs) \<Longrightarrow> evs \<noteq> [] \<Longrightarrow>
   isLevelEnabledForTag outer s tg lvl \<and> isLevelEnabledForTag (tagLockTaken env) s tg lvl"
  by (auto simp: log_def dest: logV_written_enabled split: if_splits)

text \<open>
  C1 (amended). With logging enabled and a level other than NONE, and the stored tags
  within their arrays, \<open>isLevelEnabledForTag\<close> holds exactly when the level is at most
  the effective threshold: the override stored for the tag, else the global level, when
  the tag mutex exists and its lock is taken; the global level when the mutex was never
  created or the lock times out. A call of \<open>logV\<close> or \<open>log\<close> writes to a backend only when
  this predicate held at each of its checks.
\<close>

theorem isLevelEnabledForTag_threshold:
  assumes "tags_fit s" and "isLoggingEnabled s" and "lvl \<noteq> ESP_LOG_NONE"
  shows "(isLevelEnabledForTag lk s tg lvl \<longleftrightarrow>
            level_le lvl (if tagMutex s \<and> lk then effective_threshold s tg
                          else globalLogLevel s)) \<and>
         (\<forall>s' evs. logV env s lvl tg fmt args = Inr (s', evs) \<and> (\<exists>e \<in> set evs. is_backend_write e)
            \<longrightarrow> isLevelEnabledForTag (tagLockTaken env) s tg lvl) \<and>
         (\<forall>s' evs. log outer env s lvl tg fmt args = Inr (s', evs) \<and>
                    (\<exists>e \<in> set evs. is_backend_write e)
            \<longrightarrow> isLevelEnabledForTag outer s tg lvl \<and>
                isLevelEnabledForTag (tagLockTaken env) s tg lvl)"
proof (intro conjI allI impI)
  from assms(1) have "find_tag (tagLevels s) t = map_of (tagLevels s) t" for t
    by (simp add: tags_fit_def find_tag_map_of)
  with assms(2,3)
  show "isLevelEnabledForTag lk s tg lvl \<longleftrightarrow>
          level_le lvl (if tagMutex s \<and> lk then effective_threshold s tg else globalLogLevel s)"
    by (auto simp: isLevelEnabledForTag_def effective_threshold_def split: option.splits)
next
  fix s' evs
  assume "logV env s lvl tg fmt args = Inr (s', evs) \<and> (\<exists>e \<in> set evs. is_backend_write e)"
  then have "logV env s lvl tg fmt args = Inr (s', evs)" and "evs \<noteq> []" by auto
  then show "isLevelEnabledForTag (tagLockTaken env) s tg lvl" by (rule logV_written_enabled)
next
  fix s' evs
  assume "log outer env s lvl tg fmt args = Inr (s', evs) \<and> (\<exists>e \<in> set evs. is_backend_write e)"
  then have run: "log outer env s lvl tg fmt args = Inr (s', evs)" and "evs \<noteq> []" by auto
  then show "isLevelEnabledForTag outer s tg lvl"
    and "isLevelEnabledForTag (tagLockTaken env) s tg lvl"
    using log_written_enabled by blast+
qed

lemma dec_5000: "dec 5000 = ''5000''"
  by (simp add: dec.simps digit_char_def)

lemma logV_example:
  "logV calm_env late_tagged ESP_LOG_ERROR (Some ''X'') (Some ''boom'') (\<lambda>f. f) =
     Inr (late_tagged\<lparr>lastLogTime := 5000, logCounter := 1\<rparr>,
          [BackendWrite 0 (''[5000][main][E] X: boom'' @ [CHR 0x0D, CHR 0x0A]) 25])"
  by (simp add: late_tagged_eq Logger_ctor_def createMutexSafe_def
      level_le_def CONFIG_LOG_SUBSCRIBER_TAG_SIZE_def
      logV_def isLevelEnabledForTag_def checkRateLimit_def notifySubscribers_def
      writeToBackends_def record_text_def snprintf_buf_def calm_env_def dec_5000
      CONFIG_LOG_BUFFER_SIZE_def MAX_LOGS_PER_SECOND_def RATE_LIMIT_WINDOW_MS_def Let_def)

text \<open>
  With \<open>X\<close> set to ERROR and the global level INFO: WARN is off and ERROR on for \<open>X\<close>,
  WARN is on for the unset \<open>Y\<close>, and WARN is on for \<open>X\<close> when the lock times out.
\<close>

theorem isLevelEnabledForTag_threshold_witness:
  "tags_fit late_tagged \<and> isLoggingEnabled late_tagged \<and>
   \<not> isLevelEnabledForTag True late_tagged (Some ''X'') ESP_LOG_WARN \<and>
   isLevelEnabledForTag True late_tagged (Some ''X'') ESP_LOG_ERROR \<and>
   isLevelEnabledForTag True late_tagged (Some ''Y'') ESP_LOG_WARN \<and>
   isLevelEnabledForTag False late_tagged (Some ''X'') ESP_LOG_WARN \<and>
   logV calm_env late_tagged ESP_LOG_ERROR (Some ''X'') (Some ''boom'') (\<lambda>f. f) =
     Inr (late_tagged\<lparr>lastLogTime := 5000, logCounter := 1\<rparr>,
          [BackendWrite 0 (''[5000][main][E] X: boom'' @ [CHR 0x0D, CHR 0x0A]) 25]) \<and>
   isLevelEnabledForTag (tagLockTaken calm_env) late_tagged (Some ''X'') ESP_LOG_ERROR"
proof -
  have fit: "tags_fit late_tagged" and on: "isLoggingEnabled late_tagged"
    by (simp_all add: late_tagged_eq Logger_ctor_def tags_fit_def
        CONFIG_LOG_SUBSCRIBER_TAG_SIZE_def)
  have facts: "tagMutex late_tagged" "globalLogLevel late_tagged = ESP_LOG_INFO"
    "effective_threshold late_tagged (Some ''X'') = ESP_LOG_ERROR"
    "effective_threshold late_tagged (Some ''Y'') = ESP_LOG_INFO"
    by (simp_all add: late_tagged_eq Logger_ctor_def createMutexSafe_def effective_threshold_def)
  note inst = isLevelEnabledForTag_threshold [OF fit on]
  have "\<not> isLevelEnabledForTag True late_tagged (Some ''X'') ESP_LOG_WARN"
    using inst [of ESP_LOG_WARN True "Some ''X''"] by (simp add: facts level_le_def)
  moreover have "isLevelEnabledForTag True late_tagged (Some ''X'') ESP_LOG_ERROR"
    using inst [of ESP_LOG_ERROR True "Some ''X''"] by (simp add: facts level_le_def)
  moreover have "isLevelEnabledForTag True late_tagged (Some ''Y'') ESP_LOG_WARN"
    using inst [of ESP_LOG_WARN True "Some ''Y''"] by (simp add: facts level_le_def)
  moreover have "isLevelEnabledForTag False late_tagged (Some ''X'') ESP_LOG_WARN"
    using inst [of ESP_LOG_WARN False "Some ''X''"] by (simp add: facts level_le_def)
  moreover have "isLevelEnabledForTag (tagLockTaken calm_env) late_tagged (Some ''X'') ESP_LOG_ERROR"
    using inst [of ESP_LOG_ERROR True "Some ''X''" calm_env "Some ''boom''" "\<lambda>f. f"] logV_example
    by simp
  ultimately show ?thesis using fit on logV_example by simp
qed

text \<open>
  C1 as stated fails on a logger built before the scheduler starts: \<open>setTagLevel\<close> stores
  the override ERROR for \<open>X\<close>, the effective threshold of \<open>X\<close> is ERROR, and WARN is
  still enabled for \<open>X\<close>.
\<close>

theorem isLevelEnabledForTag_ignores_table_counterexample:
  "isLoggingEnabled early_tagged \<and> ESP_LOG_WARN \<noteq> ESP_LOG_NONE \<and>
   map_of (tagLevels early_tagged) ''X'' = Some ESP_LOG_ERROR \<and>
   effective_threshold early_tagged (Some ''X'') = ESP_LOG_ERROR \<and>
   \<not> level_le ESP_LOG_WARN (effective_threshold early_tagged (Some ''X'')) \<and>
   isLevelEnabledForTag True early_tagged (Some ''X'') ESP_LOG_WARN"
  by (simp add: early_tagged_eq Logger_ctor_def createMutexSafe_def
      effective_threshold_def level_le_def isLevelEnabledForTag_def)


lemma full_table_keys:
  "distinct (map fst full_table) \<and> length full_table = 32 \<and>
   list_all (\<lambda>e. length (fst e) < 32) full_table \<and> ''Z'' \<notin> fst ` set full_table"
  by code_simp

lemma tag_table_inv_ctor: "tag_table_inv (Logger_ctor a b1 b2 b3 b4)"
  by (simp add: tag_table_inv_def tags_fit_def Logger_ctor_def)

text \<open>
  C6 (amended). For a tag of 1 to 31 characters, on a table that holds no tag twice and
  at most 32 entries: when the tag mutex does not exist or its lock is taken,
  \<open>setTagLevel\<close> keeps that invariant; a tag that has an entry gets the new level in
  place and the entry count stays; a new tag is appended while the count is below 32;
  on a full table a new tag leaves the logger unchanged. When the lock times out the
  table is unchanged and the timeout counter is incremented.
\<close>

theorem setTagLevel_table:
  assumes "tag_table_inv s" and "t \<noteq> []" and "length t < CONFIG_LOG_SUBSCRIBER_TAG_SIZE"
  shows "(\<not> tagMutex s \<or> lk \<longrightarrow>
            tag_table_inv (setTagLevel lk s (Some t) l) \<and>
            (t \<in> fst ` set (tagLevels s) \<longrightarrow>
               setTagLevel lk s (Some t) l =
                 s\<lparr>tagLevels := map (\<lambda>e. if fst e = t then (t, l) else e) (tagLevels s)\<rparr> \<and>
               length (tagLevels (setTagLevel lk s (Some t) l)) = length (tagLevels s)) \<and>
            (t \<notin> fst ` set (tagLevels s) \<and> length (tagLevels s) < CONFIG_LOG_MAX_TAGS \<longrightarrow>
               setTagLevel lk s (Some t) l = s\<lparr>tagLevels := tagLevels s @ [(t, l)]\<rparr>) \<and>
            (t \<notin> fst ` set (tagLevels s) \<and> length (tagLevels s) = CONFIG_LOG_MAX_TAGS \<longrightarrow>
               setTagLevel lk s (Some t) l = s)) \<and>
         (tagMutex s \<and> \<not> lk \<longrightarrow>
            setTagLevel lk s (Some t) l = s\<lparr>mutexTimeouts := mutexTimeouts s + 1\<rparr>)"
proof -
  let ?es = "tagLevels s"
  let ?upd = "map (\<lambda>e. if fst e = t then (t, l) else e) ?es"
  from assms(1) have fit: "list_all (\<lambda>e. length (fst e) < CONFIG_LOG_SUBSCRIBER_TAG_SIZE) ?es"
    and dist: "distinct (map fst ?es)" and cap: "length ?es \<le> CONFIG_LOG_MAX_TAGS"
    by (simp_all add: tag_table_inv_def tags_fit_def)
  have run: "setTagLevel lk s (Some t) l = doSetTagLevel s t (length t) l" if "\<not> tagMutex s \<or> lk"
    using that assms(2,3) by (auto simp: setTagLevel_def Let_def)
  have present: "doSetTagLevel s t (length t) l = s\<lparr>tagLevels := ?upd\<rparr>"
    if "t \<in> fst ` set ?es"
    using update_tag_Some [OF fit dist that, of l] by (simp add: doSetTagLevel_def)
  have absent: "doSetTagLevel s t (length t) l =
      (if length ?es < CONFIG_LOG_MAX_TAGS then s\<lparr>tagLevels := ?es @ [(t, l)]\<rparr> else s)"
    if "t \<notin> fst ` set ?es"
    using update_tag_None [OF fit, of t l] that by (simp add: doSetTagLevel_def)
  have keys: "map fst ?upd = map fst ?es"
    by (induction ?es) auto
  have "distinct (map fst ?upd)"
    using dist by (simp only: keys)
  moreover have "list_all (\<lambda>e. length (fst e) < CONFIG_LOG_SUBSCRIBER_TAG_SIZE) ?upd"
    using fit assms(3) by (auto simp: list_all_iff)
  ultimately have inv_upd: "tag_table_inv (s\<lparr>tagLevels := ?upd\<rparr>)"
    using cap by (simp add: tag_table_inv_def tags_fit_def)
  have inv_app: "tag_table_inv (s\<lparr>tagLevels := ?es @ [(t, l)]\<rparr>)"
    if "t \<notin> fst ` set ?es" "length ?es < CONFIG_LOG_MAX_TAGS"
    using fit dist that assms(3) by (auto simp: tag_table_inv_def tags_fit_def)
  have inv: "tag_table_inv (doSetTagLevel s t (length t) l)"
  proof (cases "t \<in> fst ` set ?es")
    case True
    then show ?thesis using present inv_upd by simp
  next
    case False
    then show ?thesis using absent inv_app assms(1) by (cases "length ?es < CONFIG_LOG_MAX_TAGS") auto
  qed
  have timeout: "setTagLevel lk s (Some t) l = s\<lparr>mutexTimeouts := mutexTimeouts s + 1\<rparr>"
    if "tagMutex s \<and> \<not> lk"
    using that assms(2) by (simp add: setTagLevel_def Let_def)
  show ?thesis
    using run present absent inv timeout by auto
qed


text \<open>
  Updating \<open>X\<close>, adding \<open>Y\<close>, and a lock timeout, on the table holding \<open>X\<close>; a new tag
  on a full table.
\<close>

theorem setTagLevel_table_witness:
  "tag_table_inv late_tagged \<and> ''X'' \<noteq> [] \<and> length ''X'' < CONFIG_LOG_SUBSCRIBER_TAG_SIZE \<and>
   tagMutex late_tagged \<and> ''X'' \<in> fst ` set (tagLevels late_tagged) \<and>
   setTagLevel True late_tagged (Some ''X'') ESP_LOG_WARN =
     late_tagged\<lparr>tagLevels := [(''X'', ESP_LOG_WARN)]\<rparr> \<and>
   ''Y'' \<notin> fst ` set (tagLevels late_tagged) \<and>
   setTagLevel True late_tagged (Some ''Y'') ESP_LOG_DEBUG =
     late_tagged\<lparr>tagLevels := [(''X'', ESP_LOG_ERROR), (''Y'', ESP_LOG_DEBUG)]\<rparr> \<and>
   setTagLevel False late_tagged (Some ''X'') ESP_LOG_WARN = late_tagged\<lparr>mutexTimeouts := 1\<rparr> \<and>
   tag_table_inv full_logger \<and> length (tagLevels full_logger) = CONFIG_LOG_MAX_TAGS \<and>
   ''Z'' \<notin> fst ` set (tagLevels full_logger) \<and>
   setTagLevel True full_logger (Some ''Z'') ESP_LOG_DEBUG = full_logger"
proof -
  have full: "tag_table_inv full_logger" "length (tagLevels full_logger) = CONFIG_LOG_MAX_TAGS"
    "''Z'' \<notin> fst ` set (tagLevels full_logger)"
    using full_table_keys
    by (simp_all add: full_logger_def tag_table_inv_def tags_fit_def
        CONFIG_LOG_SUBSCRIBER_TAG_SIZE_def CONFIG_LOG_MAX_TAGS_def)
  have inv: "tag_table_inv late_tagged"
    by (simp add: late_tagged_eq tag_table_inv_def tags_fit_def Logger_ctor_def
        CONFIG_LOG_SUBSCRIBER_TAG_SIZE_def CONFIG_LOG_MAX_TAGS_def)
  have facts: "tagMutex late_tagged" "tagLevels late_tagged = [(''X'', ESP_LOG_ERROR)]"
    "mutexTimeouts late_tagged = 0"
    by (simp_all add: late_tagged_eq Logger_ctor_def createMutexSafe_def)
  have size: "length ''X'' < CONFIG_LOG_SUBSCRIBER_TAG_SIZE" "length ''Y'' < CONFIG_LOG_SUBSCRIBER_TAG_SIZE"
    "length ''Z'' < CONFIG_LOG_SUBSCRIBER_TAG_SIZE"
    by (simp_all add: CONFIG_LOG_SUBSCRIBER_TAG_SIZE_def)
  show ?thesis
    using setTagLevel_table [OF inv _ size(1), of True ESP_LOG_WARN]
      setTagLevel_table [OF inv _ size(2), of True ESP_LOG_DEBUG]
      setTagLevel_table [OF inv _ size(1), of False ESP_LOG_WARN]
      setTagLevel_table [OF full(1) _ size(3), of True ESP_LOG_DEBUG]
    by (simp add: inv facts full CONFIG_LOG_MAX_TAGS_def CONFIG_LOG_SUBSCRIBER_TAG_SIZE_def)
qed

text \<open>
  C6 as stated fails twice. Setting a 32-character tag twice stores its 31-character
  truncation twice: the scan compares 32 characters and never matches the truncated
  copy. And with the lock timed out, the level of an existing entry is not updated.
\<close>

theorem setTagLevel_duplicates_counterexample:
  "tagLevels (setTagLevel True
       (setTagLevel True (Logger_ctor True True True True True) (Some long_tag) ESP_LOG_ERROR)
       (Some long_tag) ESP_LOG_WARN) =
     [(replicate 31 (CHR ''a''), ESP_LOG_ERROR), (replicate 31 (CHR ''a''), ESP_LOG_WARN)] \<and>
   tagLevels late_tagged = [(''X'', ESP_LOG_ERROR)] \<and>
   tagLevels (setTagLevel False late_tagged (Some ''X'') ESP_LOG_WARN) = [(''X'', ESP_LOG_ERROR)]"
  by (simp add: late_tagged_eq long_tag_def setTagLevel_def doSetTagLevel_def Logger_ctor_def
      createMutexSafe_def strncmp_zero_short CONFIG_LOG_MAX_TAGS_def
      CONFIG_LOG_SUBSCRIBER_TAG_SIZE_def)

section \<open>Logging calls: properties\<close>

lemma isLevelEnabledForTag_null_tag:
  "isLevelEnabledForTag lk s None lvl \<longleftrightarrow>
     isLoggingEnabled s \<and> lvl \<noteq> ESP_LOG_NONE \<and> level_le lvl (globalLogLevel s)"
  by (simp add: isLevelEnabledForTag_def)

text \<open>
  A null format that passes the filter, the rate limiter and the buffer acquisition
  reaches \<^verbatim>\<open>vsnprintf\<close>; \<open>logDirect\<close> guards its message against null, \<open>logV\<close> does not
  guard its format.
\<close>

lemma logV_null_format_faults:
  "isLevelEnabledForTag (tagLockTaken env) s tg lvl \<Longrightarrow>
   fst (checkRateLimit (rateLockTaken env) (rateMillis env) s) \<Longrightarrow> formatBufferOk env \<Longrightarrow>
   logV env s lvl tg None args = Inl LoadProhibited"
  by (auto simp: logV_def split: prod.splits)

lemma write_each_buffer:
  "BackendWrite b buf len \<in> set (write_each bs buf' len') \<Longrightarrow> buf = buf' \<and> len = len'"
  by (induction bs buf' len' rule: write_each.induct) auto

lemma write_each_reaches:
  "Some b \<in> set bs \<Longrightarrow> BackendWrite b buf len \<in> set (write_each bs buf len)"
  by (induction bs buf len rule: write_each.induct) auto

lemma writeToBackends_buffer:
  "BackendWrite b buf len \<in> set (writeToBackends lk s buf' len') \<Longrightarrow> buf = buf' \<and> len = len'"
  by (auto simp: writeToBackends_def dest: write_each_buffer split: if_splits)

lemma invoke_callbacks_no_write:
  "BackendWrite b buf len \<notin> set (invoke_callbacks cs lvl tg m)"
  by (induction cs lvl tg m rule: invoke_callbacks.induct) auto

lemma notifySubscribers_no_write:
  "BackendWrite b buf len \<notin> set (snd (notifySubscribers i lk s lvl tg m))"
  by (auto simp: notifySubscribers_def Let_def invoke_callbacks_no_write split: option.splits)

lemma checkRateLimit_keeps:
  "backends (snd (checkRateLimit lk now s)) = backends s"
  "backendMutex (snd (checkRateLimit lk now s)) = backendMutex s"
  by (simp_all add: checkRateLimit_def Let_def)

lemma notifySubscribers_keeps:
  "droppedLogs (fst (notifySubscribers i lk s lvl tg m)) = droppedLogs s"
  "logCounter (fst (notifySubscribers i lk s lvl tg m)) = logCounter s"
  "lastLogTime (fst (notifySubscribers i lk s lvl tg m)) = lastLogTime s"
  "backends (fst (notifySubscribers i lk s lvl tg m)) = backends s"
  "backendMutex (fst (notifySubscribers i lk s lvl tg m)) = backendMutex s"
  by (simp_all add: notifySubscribers_def Let_def split: option.splits)

text \<open>
  C4 (amended). A null tag is filtered against the global level alone, whatever the tag
  table and the tag lock, and \<open>log\<close> with a null tag is \<open>logV\<close>. When the global filter
  rejects the level the call is a no-op. Otherwise, with a non-null format, the call goes
  through rate admission, formatting and subscriber notification: a call that is not
  admitted or gets no format buffer changes only what \<open>checkRateLimit\<close> changes; with the
  record buffer obtained and the backend mutex absent or its lock taken, every backend is
  handed, after the notification, the record with \<open>?\<close> in the place of the tag, cut to 255
  characters; with the backend lock timed out nothing more happens; with no record buffer
  the formatted text goes to \<^verbatim>\<open>esp_log_write\<close> with the null tag.
\<close>

theorem log_null_tag:
  "(isLevelEnabledForTag lk s None lvl \<longleftrightarrow>
      isLoggingEnabled s \<and> lvl \<noteq> ESP_LOG_NONE \<and> level_le lvl (globalLogLevel s)) \<and>
   log outer env s lvl None fmt args = logV env s lvl None fmt args \<and>
   (\<not> (isLoggingEnabled s \<and> lvl \<noteq> ESP_LOG_NONE \<and> level_le lvl (globalLogLevel s)) \<longrightarrow>
      logV env s lvl None fmt args = Inr (s, [])) \<and>
   (\<forall>f body line allowed sr sn notified.
      fmt = Some f \<and>
      isLoggingEnabled s \<and> lvl \<noteq> ESP_LOG_NONE \<and> level_le lvl (globalLogLevel s) \<and>
      checkRateLimit (rateLockTaken env) (rateMillis env) s = (allowed, sr) \<and>
      body = take 255 (args f) \<and>
      notifySubscribers (inIsrContext env) (subscriberLockTaken env) sr lvl None (Some body) =
        (sn, notified) \<and>
      line = ''['' @ dec (unat (recordMillis env)) @ ''][''
               @ (case taskName env of Some n \<Rightarrow> n | None \<Rightarrow> ''?'') @ ''][''
               @ levelToString lvl @ ''] ?: '' @ body @ [CHR 0x0D, CHR 0x0A] \<longrightarrow>
      (\<not> allowed \<or> \<not> formatBufferOk env \<longrightarrow>
         logV env s lvl None fmt args = Inr (sr, [])) \<and>
      (allowed \<and> formatBufferOk env \<and> fullMessageOk env \<and>
       (\<not> backendMutex s \<or> backendLockTaken env) \<longrightarrow>
         logV env s lvl None fmt args =
           Inr (sn, notified @
                    write_each (backends s) (take 255 line)
                      (if length line \<ge> 256 then 255 else length line))) \<and>
      (allowed \<and> formatBufferOk env \<and> fullMessageOk env \<and>
       backendMutex s \<and> \<not> backendLockTaken env \<longrightarrow>
         logV env s lvl None fmt args = Inr (sn, notified)) \<and>
      (allowed \<and> formatBufferOk env \<and> \<not> fullMessageOk env \<longrightarrow>
         logV env s lvl None fmt args = Inr (sn, notified @ [EspLogWrite lvl None body])))"
proof (intro conjI allI impI)
  show "isLevelEnabledForTag lk s None lvl \<longleftrightarrow>
      isLoggingEnabled s \<and> lvl \<noteq> ESP_LOG_NONE \<and> level_le lvl (globalLogLevel s)"
    by (rule isLevelEnabledForTag_null_tag)
  show "log outer env s lvl None fmt args = logV env s lvl None fmt args"
    by (simp add: log_def logV_def isLevelEnabledForTag_null_tag)
  show "logV env s lvl None fmt args = Inr (s, [])"
    if "\<not> (isLoggingEnabled s \<and> lvl \<noteq> ESP_LOG_NONE \<and> level_le lvl (globalLogLevel s))"
    using that by (simp add: logV_def isLevelEnabledForTag_null_tag)
next
  fix f body line allowed sr sn notified
  assume all: "fmt = Some f \<and>
      isLoggingEnabled s \<and> lvl \<noteq> ESP_LOG_NONE \<and> level_le lvl (globalLogLevel s) \<and>
      checkRateLimit (rateLockTaken env) (rateMillis env) s = (allowed, sr) \<and>
      body = take 255 (args f) \<and>
      notifySubscribers (inIsrContext env) (subscriberLockTaken env) sr lvl None (Some body) =
        (sn, notified) \<and>
      line = ''['' @ dec (unat (recordMillis env)) @ ''][''
               @ (case taskName env of Some n \<Rightarrow> n | None \<Rightarrow> ''?'') @ ''][''
               @ levelToString lvl @ ''] ?: '' @ body @ [CHR 0x0D, CHR 0x0A]"
  then have pass: "isLevelEnabledForTag (tagLockTaken env) s None lvl"
    by (simp add: isLevelEnabledForTag_null_tag)
  from all have rate: "checkRateLimit (rateLockTaken env) (rateMillis env) s = (allowed, sr)"
    and fmt: "fmt = Some f"
    and buf: "snprintf_buf CONFIG_LOG_BUFFER_SIZE (args f) = body"
    and notif: "notifySubscribers (inIsrContext env) (subscriberLockTaken env) sr lvl None
        (Some body) = (sn, notified)"
    and rendered: "record_text (recordMillis env) (taskName env) lvl None body = line"
    by (auto simp: snprintf_buf_def CONFIG_LOG_BUFFER_SIZE_def record_text_def)
  have "backends sr = backends s" "backendMutex sr = backendMutex s"
    using checkRateLimit_keeps [of "rateLockTaken env" "rateMillis env" s] rate by simp_all
  moreover have "backends sn = backends sr" "backendMutex sn = backendMutex sr"
    using notifySubscribers_keeps(4,5) [of "inIsrContext env" "subscriberLockTaken env" sr lvl
        None "Some body"] notif by simp_all
  ultimately have same: "backends sn = backends s" "backendMutex sn = backendMutex s"
    by simp_all
  have unfolded: "logV env s lvl None fmt args =
      (if \<not> allowed then Inr (sr, [])
       else if \<not> formatBufferOk env then Inr (sr, [])
       else if fullMessageOk env
       then Inr (sn, notified @ writeToBackends (backendLockTaken env) sn (take 255 line)
                       (if length line \<ge> 256 then 255 else length line))
       else Inr (sn, notified @ [EspLogWrite lvl None body]))"
    using pass rate fmt buf notif rendered
    by (simp add: logV_def Let_def snprintf_buf_def [of _ line] CONFIG_LOG_BUFFER_SIZE_def)
  show "logV env s lvl None fmt args = Inr (sr, [])" if "\<not> allowed \<or> \<not> formatBufferOk env"
    using that unfolded by auto
  show "logV env s lvl None fmt args =
           Inr (sn, notified @
                    write_each (backends s) (take 255 line)
                      (if length line \<ge> 256 then 255 else length line))"
    if "allowed \<and> formatBufferOk env \<and> fullMessageOk env \<and>
       (\<not> backendMutex s \<or> backendLockTaken env)"
    using that unfolded same by (auto simp: writeToBackends_def)
  show "logV env s lvl None fmt args = Inr (sn, notified)"
    if "allowed \<and> formatBufferOk env \<and> fullMessageOk env \<and>
       backendMutex s \<and> \<not> backendLockTaken env"
    using that unfolded same by (simp add: writeToBackends_def)
  show "logV env s lvl None fmt args = Inr (sn, notified @ [EspLogWrite lvl None body])"
    if "allowed \<and> formatBufferOk env \<and> \<not> fullMessageOk env"
    using that unfolded by simp
qed

lemma log_null_tag_example:
  "log True calm_env (Logger_ctor True True True True True) ESP_LOG_INFO None (Some ''hi'') (\<lambda>f. f) =
     Inr ((Logger_ctor True True True True True)\<lparr>lastLogTime := 5000, logCounter := 1\<rparr>,
          [BackendWrite 0 (''[5000][main][I] ?: hi'' @ [CHR 0x0D, CHR 0x0A]) 23])"
  by (simp add: Logger_ctor_def createMutexSafe_def level_le_def
      log_def logV_def isLevelEnabledForTag_def checkRateLimit_def notifySubscribers_def
      writeToBackends_def record_text_def snprintf_buf_def calm_env_def dec_5000
      CONFIG_LOG_BUFFER_SIZE_def MAX_LOGS_PER_SECOND_def RATE_LIMIT_WINDOW_MS_def Let_def)

text \<open>
  A null tag at DEBUG, filtered out by the global level INFO, and at INFO, written.
\<close>

theorem log_null_tag_witness:
  "\<not> level_le ESP_LOG_DEBUG (globalLogLevel (Logger_ctor True True True True True)) \<and>
   logV calm_env (Logger_ctor True True True True True) ESP_LOG_DEBUG None (Some ''hi'') (\<lambda>f. f) =
     Inr (Logger_ctor True True True True True, []) \<and>
   isLevelEnabledForTag False (Logger_ctor True True True True True) None ESP_LOG_INFO \<and>
   logV calm_env (Logger_ctor True True True True True) ESP_LOG_INFO None (Some ''hi'') (\<lambda>f. f) =
     Inr ((Logger_ctor True True True True True)\<lparr>lastLogTime := 5000, logCounter := 1\<rparr>,
          [BackendWrite 0 (''[5000][main][I] ?: hi'' @ [CHR 0x0D, CHR 0x0A]) 23])"
proof -
  let ?s = "Logger_ctor True True True True True"
  let ?s1 = "?s\<lparr>lastLogTime := 5000, logCounter := 1\<rparr>"
  have facts: "isLoggingEnabled ?s" "globalLogLevel ?s = ESP_LOG_INFO" "backendMutex ?s"
    "backends ?s = [Some 0]"
    by (simp_all add: Logger_ctor_def createMutexSafe_def)
  have env: "formatBufferOk calm_env" "fullMessageOk calm_env" "backendLockTaken calm_env"
    "recordMillis calm_env = 5000" "taskName calm_env = Some ''main''"
    by (simp_all add: calm_env_def)
  have rate: "checkRateLimit (rateLockTaken calm_env) (rateMillis calm_env) ?s = (True, ?s1)"
    by (simp add: checkRateLimit_def calm_env_def Logger_ctor_def createMutexSafe_def
        MAX_LOGS_PER_SECOND_def RATE_LIMIT_WINDOW_MS_def)
  have notif: "notifySubscribers (inIsrContext calm_env) (subscriberLockTaken calm_env) ?s1
      ESP_LOG_INFO None (Some ''hi'') = (?s1, [])"
    by (simp add: notifySubscribers_def Logger_ctor_def)
  have filtered: "logV calm_env ?s ESP_LOG_DEBUG None (Some ''hi'') (\<lambda>f. f) = Inr (?s, [])"
    using log_null_tag [where s = ?s and lvl = ESP_LOG_DEBUG and env = calm_env
        and fmt = "Some ''hi''" and args = "\<lambda>f. f"]
    by (simp add: facts level_le_def)
  have enabled: "isLevelEnabledForTag False ?s None ESP_LOG_INFO"
    using log_null_tag [where s = ?s and lvl = ESP_LOG_INFO and lk = False]
    by (simp add: facts level_le_def)
  have written: "logV calm_env ?s ESP_LOG_INFO None (Some ''hi'') (\<lambda>f. f) =
      Inr (?s1, [BackendWrite 0 (''[5000][main][I] ?: hi'' @ [CHR 0x0D, CHR 0x0A]) 23])"
    using log_null_tag [where s = ?s and lvl = ESP_LOG_INFO and env = calm_env
        and fmt = "Some ''hi''" and args = "\<lambda>f. f" and lk = True and outer = True,
        THEN conjunct2, THEN conjunct2, THEN conjunct2, rule_format,
        where f = "''hi''" and body = "''hi''"
          and line = "''[5000][main][I] ?: hi'' @ [CHR 0x0D, CHR 0x0A]"
          and allowed = True and sr = ?s1 and sn = ?s1 and notified = "[]"]
      rate notif
    by (simp add: facts env level_le_def dec_5000)
  from filtered enabled written show ?thesis
    by (simp add: facts level_le_def)
qed

text \<open>
  C4 as stated fails: a call of \<open>log\<close> with a null tag at the global level writes a
  record to the backend and restarts the rate-limit window; it is not a no-op.
\<close>

theorem log_null_tag_writes_counterexample:
  "log True calm_env (Logger_ctor True True True True True) ESP_LOG_INFO None (Some ''hi'') (\<lambda>f. f) =
     Inr ((Logger_ctor True True True True True)\<lparr>lastLogTime := 5000, logCounter := 1\<rparr>,
          [BackendWrite 0 (''[5000][main][I] ?: hi'' @ [CHR 0x0D, CHR 0x0A]) 23]) \<and>
   log True calm_env (Logger_ctor True True True True True) ESP_LOG_INFO None (Some ''hi'') (\<lambda>f. f) \<noteq>
     Inr (Logger_ctor True True True True True, [])"
  by (simp add: log_null_tag_example)

lemma isLevelEnabledForTag_rate_fields:
  "isLevelEnabledForTag lk
     (s\<lparr>maxLogsPerSecond := a, lastLogTime := b, logCounter := c, droppedLogs := d,
        rateLimitMutex := e\<rparr>) tg lvl = isLevelEnabledForTag lk s tg lvl"
  by (simp add: isLevelEnabledForTag_def Let_def split: option.splits)

lemma notifySubscribers_rate_fields:
  "notifySubscribers i lk
     (s\<lparr>maxLogsPerSecond := a, lastLogTime := b, logCounter := c, droppedLogs := d,
        rateLimitMutex := e\<rparr>) lvl tg m =
   (fst (notifySubscribers i lk s lvl tg m)
      \<lparr>maxLogsPerSecond := a, lastLogTime := b, logCounter := c, droppedLogs := d,
       rateLimitMutex := e\<rparr>,
    snd (notifySubscribers i lk s lvl tg m))"
  by (auto simp: notifySubscribers_def Let_def split: option.splits)

lemma writeToBackends_cong:
  "backends s' = backends s \<Longrightarrow> backendMutex s' = backendMutex s \<Longrightarrow>
   writeToBackends lk s' buf len = writeToBackends lk s buf len"
  by (simp add: writeToBackends_def)

lemma logDirect_unfold:
  "logDirect env s lvl tg (Some x) =
     (if \<not> isLevelEnabledForTag (tagLockTaken env) s tg lvl then (s, [])
      else (fst (notifySubscribers (inIsrContext env) (subscriberLockTaken env) s lvl tg (Some x)),
            snd (notifySubscribers (inIsrContext env) (subscriberLockTaken env) s lvl tg (Some x)) @
            (if fullMessageOk env
             then writeToBackends (backendLockTaken env) s
                    (snprintf_buf CONFIG_LOG_BUFFER_SIZE
                       (record_text (recordMillis env) (taskName env) lvl tg x))
                    (length (record_text (recordMillis env) (taskName env) lvl tg x))
             else [EspLogWrite lvl tg x])))"
proof -
  obtain s1 notified where notif:
    "notifySubscribers (inIsrContext env) (subscriberLockTaken env) s lvl tg (Some x) = (s1, notified)"
    by (cases "notifySubscribers (inIsrContext env) (subscriberLockTaken env) s lvl tg (Some x)")
  have "backends s1 = backends s" "backendMutex s1 = backendMutex s"
    using notifySubscribers_keeps(4,5) [of "inIsrContext env" "subscriberLockTaken env" s lvl tg
        "Some x"] notif by simp_all
  then have "writeToBackends lk s1 buf len = writeToBackends lk s buf len" for lk buf len
    by (rule writeToBackends_cong)
  with notif show ?thesis by (simp add: logDirect_def Let_def)
qed



lemma logDirect_rate_fields:
  "logDirect env
     (s\<lparr>maxLogsPerSecond := a, lastLogTime := b, logCounter := c, droppedLogs := d,
        rateLimitMutex := e\<rparr>) lvl tg m =
   (fst (logDirect env s lvl tg m)
      \<lparr>maxLogsPerSecond := a, lastLogTime := b, logCounter := c, droppedLogs := d,
       rateLimitMutex := e\<rparr>,
    snd (logDirect env s lvl tg m))"
proof (cases m)
  case None
  then show ?thesis by (simp add: logDirect_def)
next
  case (Some x)
  have "writeToBackends lk
          (s\<lparr>maxLogsPerSecond := a, lastLogTime := b, logCounter := c, droppedLogs := d,
             rateLimitMutex := e\<rparr>) buf len = writeToBackends lk s buf len" for lk buf len
    by (simp add: writeToBackends_def)
  with Some show ?thesis
    by (simp add: logDirect_unfold isLevelEnabledForTag_rate_fields notifySubscribers_rate_fields)
qed

lemma logDirect_null: "logDirect env s lvl tg None = (s, [])"
  by (simp add: logDirect_def)

lemma logDirect_keeps:
  "droppedLogs (fst (logDirect env s lvl tg m)) = droppedLogs s \<and>
   logCounter (fst (logDirect env s lvl tg m)) = logCounter s \<and>
   lastLogTime (fst (logDirect env s lvl tg m)) = lastLogTime s"
  by (cases m) (simp_all add: logDirect_null logDirect_unfold notifySubscribers_keeps)

text \<open>
  C3 (amended). \<open>logDirect\<close> never consults rate admission: its events do not depend on
  the rate limiter's fields, and it leaves them, the dropped-log counter among them, as they
  were. A call with a null message, or one that fails \<open>isLevelEnabledForTag\<close>, does
  nothing. A call with a non-null message that passes it runs \<open>notifySubscribers\<close> first;
  then, when a buffer is obtained and the backend mutex does not exist or its lock is taken,
  every registered backend is handed, in order, the buffer holding the first 255 characters
  of the composed record; a record shorter than 256 characters is handed over whole, with
  its length. When no buffer is obtained the text goes to \<^verbatim>\<open>esp_log_write\<close> instead;
  when the backend lock times out nothing is written.
\<close>

theorem logDirect_bypasses_rate_limit:
  "logDirect env
     (s\<lparr>maxLogsPerSecond := a, lastLogTime := b, logCounter := c, droppedLogs := d,
        rateLimitMutex := e\<rparr>) lvl tg m =
     (fst (logDirect env s lvl tg m)
        \<lparr>maxLogsPerSecond := a, lastLogTime := b, logCounter := c, droppedLogs := d,
         rateLimitMutex := e\<rparr>,
      snd (logDirect env s lvl tg m)) \<and>
   droppedLogs (fst (logDirect env s lvl tg m)) = droppedLogs s \<and>
   logCounter (fst (logDirect env s lvl tg m)) = logCounter s \<and>
   lastLogTime (fst (logDirect env s lvl tg m)) = lastLogTime s \<and>
   (m = None \<or> \<not> isLevelEnabledForTag (tagLockTaken env) s tg lvl \<longrightarrow>
      logDirect env s lvl tg m = (s, [])) \<and>
   (\<forall>x line sn notified.
      m = Some x \<and> isLevelEnabledForTag (tagLockTaken env) s tg lvl \<and>
      notifySubscribers (inIsrContext env) (subscriberLockTaken env) s lvl tg (Some x) =
        (sn, notified) \<and>
      line = record_text (recordMillis env) (taskName env) lvl tg x \<longrightarrow>
      (\<not> fullMessageOk env \<longrightarrow>
         logDirect env s lvl tg m = (sn, notified @ [EspLogWrite lvl tg x])) \<and>
      (fullMessageOk env \<and> backendMutex s \<and> \<not> backendLockTaken env \<longrightarrow>
         logDirect env s lvl tg m = (sn, notified)) \<and>
      (fullMessageOk env \<and> (\<not> backendMutex s \<or> backendLockTaken env) \<longrightarrow>
         logDirect env s lvl tg m =
           (sn, notified @ write_each (backends s) (take 255 line) (length line)) \<and>
         (\<forall>k. Some k \<in> set (backends s) \<longrightarrow>
            BackendWrite k (take 255 line) (length line) \<in> set (snd (logDirect env s lvl tg m)) \<and>
            (length line < 256 \<longrightarrow>
               BackendWrite k line (length line) \<in> set (snd (logDirect env s lvl tg m))))))"
proof (intro conjI allI impI)
  show "logDirect env
     (s\<lparr>maxLogsPerSecond := a, lastLogTime := b, logCounter := c, droppedLogs := d,
        rateLimitMutex := e\<rparr>) lvl tg m =
     (fst (logDirect env s lvl tg m)
        \<lparr>maxLogsPerSecond := a, lastLogTime := b, logCounter := c, droppedLogs := d,
         rateLimitMutex := e\<rparr>,
      snd (logDirect env s lvl tg m))"
    by (rule logDirect_rate_fields)
  show "droppedLogs (fst (logDirect env s lvl tg m)) = droppedLogs s"
    and "logCounter (fst (logDirect env s lvl tg m)) = logCounter s"
    and "lastLogTime (fst (logDirect env s lvl tg m)) = lastLogTime s"
    using logDirect_keeps [of env s lvl tg m] by simp_all
  show "logDirect env s lvl tg m = (s, [])"
    if "m = None \<or> \<not> isLevelEnabledForTag (tagLockTaken env) s tg lvl"
    using that by (cases m) (auto simp: logDirect_null logDirect_unfold)
next
  fix x line sn notified
  assume all: "m = Some x \<and> isLevelEnabledForTag (tagLockTaken env) s tg lvl \<and>
      notifySubscribers (inIsrContext env) (subscriberLockTaken env) s lvl tg (Some x) =
        (sn, notified) \<and>
      line = record_text (recordMillis env) (taskName env) lvl tg x"
  then have unfolded: "logDirect env s lvl tg m =
      (sn, notified @
           (if fullMessageOk env
            then writeToBackends (backendLockTaken env) s (take 255 line) (length line)
            else [EspLogWrite lvl tg x]))"
    by (simp add: logDirect_unfold snprintf_buf_def CONFIG_LOG_BUFFER_SIZE_def)
  show "logDirect env s lvl tg m = (sn, notified @ [EspLogWrite lvl tg x])"
    if "\<not> fullMessageOk env"
    using that unfolded by simp
  show "logDirect env s lvl tg m = (sn, notified)"
    if "fullMessageOk env \<and> backendMutex s \<and> \<not> backendLockTaken env"
    using that unfolded by (simp add: writeToBackends_def)
  show sent: "logDirect env s lvl tg m =
      (sn, notified @ write_each (backends s) (take 255 line) (length line))"
    if "fullMessageOk env \<and> (\<not> backendMutex s \<or> backendLockTaken env)"
    using that unfolded by (auto simp: writeToBackends_def)
  fix k
  assume ok: "fullMessageOk env \<and> (\<not> backendMutex s \<or> backendLockTaken env)"
    and k: "Some k \<in> set (backends s)"
  from sent [OF ok] k
  show reached: "BackendWrite k (take 255 line) (length line) \<in> set (snd (logDirect env s lvl tg m))"
    by (simp add: write_each_reaches)
  show "BackendWrite k line (length line) \<in> set (snd (logDirect env s lvl tg m))"
    if "length line < 256"
    using reached that by simp
qed

lemma logDirect_example:
  "logDirect calm_env late_logger ESP_LOG_INFO (Some ''T'') (Some ''m'') =
     (late_logger, [BackendWrite 0 (''[5000][main][I] T: m'' @ [CHR 0x0D, CHR 0x0A]) 22])"
  by (simp add: late_logger_eq Logger_ctor_def createMutexSafe_def level_le_def
      logDirect_def isLevelEnabledForTag_def notifySubscribers_def
      writeToBackends_def record_text_def snprintf_buf_def calm_env_def dec_5000
      CONFIG_LOG_BUFFER_SIZE_def CONFIG_LOG_SUBSCRIBER_TAG_SIZE_def Let_def)

text \<open>
  On a logger whose window is full, so that \<open>checkRateLimit\<close> rejects, \<open>logDirect\<close>
  writes the record at INFO and does nothing at DEBUG.
\<close>

theorem logDirect_bypasses_rate_limit_witness:
  "isLevelEnabledForTag (tagLockTaken calm_env) late_logger (Some ''T'') ESP_LOG_INFO \<and>
   fullMessageOk calm_env \<and> backendLockTaken calm_env \<and>
   Some 0 \<in> set (backends late_logger) \<and>
   \<not> fst (checkRateLimit True 4294967196 late_logger) \<and>
   logDirect calm_env late_logger ESP_LOG_INFO (Some ''T'') (Some ''m'') =
     (late_logger, [BackendWrite 0 (''[5000][main][I] T: m'' @ [CHR 0x0D, CHR 0x0A]) 22]) \<and>
   \<not> isLevelEnabledForTag (tagLockTaken calm_env) late_logger (Some ''T'') ESP_LOG_DEBUG \<and>
   logDirect calm_env late_logger ESP_LOG_DEBUG (Some ''T'') (Some ''m'') = (late_logger, [])"
proof -
  have pass: "isLevelEnabledForTag (tagLockTaken calm_env) late_logger (Some ''T'') ESP_LOG_INFO"
    and stop: "\<not> isLevelEnabledForTag (tagLockTaken calm_env) late_logger (Some ''T'') ESP_LOG_DEBUG"
    by (simp_all add: late_logger_eq Logger_ctor_def createMutexSafe_def level_le_def
        isLevelEnabledForTag_def calm_env_def)
  have env: "fullMessageOk calm_env" "backendLockTaken calm_env" "recordMillis calm_env = 5000"
    "taskName calm_env = Some ''main''"
    by (simp_all add: calm_env_def)
  have backs: "backends late_logger = [Some 0]"
    by (simp add: late_logger_eq Logger_ctor_def)
  have full: "\<not> fst (checkRateLimit True 4294967196 late_logger)"
    by (simp add: late_logger_eq Logger_ctor_def createMutexSafe_def checkRateLimit_def
        RATE_LIMIT_WINDOW_MS_def)
  have notif: "notifySubscribers (inIsrContext calm_env) (subscriberLockTaken calm_env)
      late_logger ESP_LOG_INFO (Some ''T'') (Some ''m'') = (late_logger, [])"
    by (simp add: notifySubscribers_def late_logger_eq Logger_ctor_def)
  have line: "record_text 5000 (Some ''main'') ESP_LOG_INFO (Some ''T'') ''m'' =
      ''[5000][main][I] T: m'' @ [CHR 0x0D, CHR 0x0A]"
    by (simp add: record_text_def dec_5000)
  have written: "logDirect calm_env late_logger ESP_LOG_INFO (Some ''T'') (Some ''m'') =
      (late_logger, [BackendWrite 0 (''[5000][main][I] T: m'' @ [CHR 0x0D, CHR 0x0A]) 22])"
    using logDirect_bypasses_rate_limit [where env = calm_env and s = late_logger
        and lvl = ESP_LOG_INFO and tg = "Some ''T''" and m = "Some ''m''"
        and a = 5 and b = 0 and c = 0 and d = 0 and e = True,
        THEN conjunct2, THEN conjunct2, THEN conjunct2, THEN conjunct2, THEN conjunct2,
        rule_format,
        where x = "''m''" and line = "''[5000][main][I] T: m'' @ [CHR 0x0D, CHR 0x0A]"
          and sn = late_logger and notified = "[]"]
      pass notif
    by (simp add: env backs line)
  have filtered: "logDirect calm_env late_logger ESP_LOG_DEBUG (Some ''T'') (Some ''m'') =
      (late_logger, [])"
    using logDirect_bypasses_rate_limit [where env = calm_env and s = late_logger
        and lvl = ESP_LOG_DEBUG and tg = "Some ''T''" and m = "Some ''m''"
        and a = 5 and b = 0 and c = 0 and d = 0 and e = True] stop
    by simp
  from pass stop env backs full written filtered show ?thesis by simp
qed

text \<open>
  C3 as stated fails when the backend lock times out: the call passes the filter and
  no backend is written.
\<close>

theorem logDirect_backend_lock_counterexample:
  "isLevelEnabledForTag (tagLockTaken busy_env) (Logger_ctor True True True True True) (Some ''T'') ESP_LOG_INFO \<and>
   backends (Logger_ctor True True True True True) = [Some 0] \<and>
   logDirect busy_env (Logger_ctor True True True True True) ESP_LOG_INFO (Some ''T'') (Some ''m'') =
     (Logger_ctor True True True True True, [])"
  by (simp add: Logger_ctor_def createMutexSafe_def level_le_def
      logDirect_def isLevelEnabledForTag_def notifySubscribers_def
      writeToBackends_def busy_env_def calm_env_def Let_def)

section \<open>Subscribers: properties\<close>

lemma index_of_None: "(index_of xs x = None) = (x \<notin> set xs)"
  by (induction xs) auto

lemma index_of_Some:
  "index_of xs x = Some i \<Longrightarrow>
   i < length xs \<and> xs ! i = x \<and> remove1 x xs = take i xs @ drop (Suc i) xs"
  by (induction xs arbitrary: i) (auto split: if_splits)

lemma index_of_Some_mem: "index_of xs x = Some i \<Longrightarrow> x \<in> set xs"
  using index_of_None [of xs x] by auto

lemma length_shift_down: "length (shift_down subs j count) = length subs"
proof (induction subs j count rule: shift_down.induct)
  case (1 subs j count)
  then show ?case by (simp add: shift_down.simps [of subs j count])
qed

lemma nth_shift_down:
  "k < length subs \<Longrightarrow> count \<le> length subs \<Longrightarrow>
   shift_down subs j count ! k = (if j \<le> k \<and> k + 1 < count then subs ! (k + 1) else subs ! k)"
proof (induction subs j count arbitrary: k rule: shift_down.induct)
  case (1 subs j count)
  show ?case
  proof (cases "j + 1 < count")
    case True
    with "1.prems" "1.IH" [of k] show ?thesis
      by (auto simp: shift_down.simps [of subs j count] nth_list_update)
  next
    case False
    then show ?thesis by (auto simp: shift_down.simps [of subs j count])
  qed
qed

lemma shift_down_removes:
  assumes "i < count" and "count \<le> length subs"
  shows "take (count - 1) ((shift_down subs i count)[count - 1 := None]) =
         take i (take count subs) @ drop (Suc i) (take count subs)"
proof (rule nth_equalityI)
  show "length (take (count - 1) ((shift_down subs i count)[count - 1 := None])) =
        length (take i (take count subs) @ drop (Suc i) (take count subs))"
    using assms by (simp add: length_shift_down)
next
  fix k
  assume "k < length (take (count - 1) ((shift_down subs i count)[count - 1 := None]))"
  with assms have k: "k < count - 1" by (simp add: length_shift_down)
  then have "Suc k < count" by arith
  with assms have "take (count - 1) ((shift_down subs i count)[count - 1 := None]) ! k =
      (if i \<le> k then subs ! (k + 1) else subs ! k)"
    by (simp add: nth_shift_down length_shift_down)
  also from k assms have "\<dots> = (take i (take count subs) @ drop (Suc i) (take count subs)) ! k"
    by (auto simp: nth_append min_def)
  finally show "take (count - 1) ((shift_down subs i count)[count - 1 := None]) ! k =
      (take i (take count subs) @ drop (Suc i) (take count subs)) ! k" .
qed


lemma registry_inv_ctor: "registry_inv (Logger_ctor a b1 b2 b3 b4)"
  by (simp add: registry_inv_def registered_def Logger_ctor_def)

lemma addLogSubscriber_rejects:
  "cb = None \<or> cb \<in> set (registered s) \<or> subscriberCount s = MAX_SUBSCRIBERS \<Longrightarrow>
   addLogSubscriber lk s cb = (False, s)"
  by (auto simp: addLogSubscriber_def registered_def Let_def index_of_None split: option.splits)

lemma addLogSubscriber_accepts:
  assumes "registry_inv s" and "fst (addLogSubscriber lk s cb)"
  shows "registered (snd (addLogSubscriber lk s cb)) = registered s @ [cb] \<and>
         registry_inv (snd (addLogSubscriber lk s cb))"
proof -
  from assms(2) obtain c where c: "cb = Some c"
    by (cases cb) (simp_all add: addLogSubscriber_def)
  let ?n = "subscriberCount s"
  from assms(2) c have room: "?n < MAX_SUBSCRIBERS"
    and fresh: "Some c \<notin> set (registered s)"
    and run: "addLogSubscriber lk s (Some c) =
      (True, s\<lparr>subscribers := (subscribers s)[?n := Some c], subscriberCount := ?n + 1\<rparr>)"
    by (auto simp: addLogSubscriber_def registered_def Let_def index_of_None split: if_splits)
  from assms(1) have len: "length (subscribers s) = MAX_SUBSCRIBERS"
    by (simp add: registry_inv_def)
  with room have reg: "registered (snd (addLogSubscriber lk s cb)) = registered s @ [cb]"
    by (simp add: run registered_def c take_Suc_conv_app_nth)
  moreover from assms(1) fresh room len reg c
  have "registry_inv (snd (addLogSubscriber lk s cb))"
    unfolding registry_inv_def by (simp add: run)
  ultimately show ?thesis by simp
qed

lemma addLogSubscriber_inv: "registry_inv s \<Longrightarrow> registry_inv (snd (addLogSubscriber lk s cb))"
proof (cases "fst (addLogSubscriber lk s cb)")
  case True
  assume "registry_inv s"
  with True show ?thesis by (simp add: addLogSubscriber_accepts)
next
  case False
  assume inv: "registry_inv s"
  from False have "snd (addLogSubscriber lk s cb) = s"
    by (auto simp: addLogSubscriber_def Let_def split: option.splits if_splits)
  with inv show ?thesis by simp
qed

lemma removeLogSubscriber_rejects:
  "cb = None \<or> cb \<notin> set (registered s) \<Longrightarrow> removeLogSubscriber lk s cb = (False, s)"
  by (auto simp: removeLogSubscriber_def registered_def Let_def
      dest: index_of_Some_mem split: option.splits)

lemma removeLogSubscriber_fails_unchanged:
  "\<not> fst (removeLogSubscriber lk s cb) \<Longrightarrow> snd (removeLogSubscriber lk s cb) = s"
  by (auto simp: removeLogSubscriber_def Let_def split: option.splits if_splits)

lemma removeLogSubscriber_removes:
  assumes "registry_inv s" and "fst (removeLogSubscriber lk s cb)"
  shows "registered (snd (removeLogSubscriber lk s cb)) = remove1 cb (registered s) \<and>
         subscriberCount (snd (removeLogSubscriber lk s cb)) = subscriberCount s - 1 \<and>
         registry_inv (snd (removeLogSubscriber lk s cb))"
proof -
  let ?n = "subscriberCount s"
  from assms(2) obtain c where c: "cb = Some c"
    by (cases cb) (simp_all add: removeLogSubscriber_def)
  from assms(2) c obtain i where i: "index_of (registered s) (Some c) = Some i"
    and run: "removeLogSubscriber lk s (Some c) =
      (True, s\<lparr>subscribers := (shift_down (subscribers s) i ?n)[?n - 1 := None],
               subscriberCount := ?n - 1\<rparr>)"
    by (auto simp: removeLogSubscriber_def registered_def Let_def split: if_splits option.splits)
  from assms(1) have len: "length (subscribers s) = MAX_SUBSCRIBERS"
    and cnt: "?n \<le> MAX_SUBSCRIBERS"
    and full: "list_all (\<lambda>c. c \<noteq> None) (registered s)" and dist: "distinct (registered s)"
    by (simp_all add: registry_inv_def)
  from index_of_Some [OF i] have ilt: "i < length (registered s)"
    and rem: "remove1 (Some c) (registered s) = take i (registered s) @ drop (Suc i) (registered s)"
    by simp_all
  from ilt cnt len have "i < ?n" by (simp add: registered_def)
  moreover from cnt len have "?n \<le> length (subscribers s)" by simp
  ultimately have "take (?n - 1) ((shift_down (subscribers s) i ?n)[?n - 1 := None]) =
      take i (take ?n (subscribers s)) @ drop (Suc i) (take ?n (subscribers s))"
    by (rule shift_down_removes)
  with rem have reg: "registered (snd (removeLogSubscriber lk s cb)) = remove1 cb (registered s)"
    by (simp add: run registered_def c)
  have "list_all (\<lambda>c. c \<noteq> None) (remove1 cb (registered s))"
    using full by (auto simp: list_all_iff dest: notin_set_remove1)
  moreover have "distinct (remove1 cb (registered s))"
    using dist by simp
  ultimately have "registry_inv (snd (removeLogSubscriber lk s cb))"
    unfolding registry_inv_def using reg len cnt
    by (simp add: c run length_shift_down)
  with reg show ?thesis by (simp add: c run)
qed


text \<open>
  C10. The registry's invariant holds after construction and is kept by
  \<open>addLogSubscriber\<close> and \<open>removeLogSubscriber\<close> whatever the lock's outcome: the count
  is at most 4 and the slots below the count hold non-null, pairwise distinct callbacks.
  \<open>addLogSubscriber\<close> returns false and leaves the logger unchanged for a null callback,
  a duplicate or a full registry, and appends the callback when it returns true.
  \<open>removeLogSubscriber\<close> returns false and leaves the logger unchanged for a null or
  unregistered callback; when it returns true the registered callbacks are the former ones
  without the removed one, in their former order, and the count is one less.
\<close>

theorem subscriber_registry:
  assumes "registry_inv s"
  shows "registry_inv (Logger_ctor a b1 b2 b3 b4) \<and>
         subscriberCount s \<le> 4 \<and> None \<notin> set (registered s) \<and> distinct (registered s) \<and>
         registry_inv (snd (addLogSubscriber lk s cb)) \<and>
         registry_inv (snd (removeLogSubscriber lk s cb)) \<and>
         (cb = None \<or> cb \<in> set (registered s) \<or> subscriberCount s = MAX_SUBSCRIBERS \<longrightarrow>
            addLogSubscriber lk s cb = (False, s)) \<and>
         (fst (addLogSubscriber lk s cb) \<longrightarrow>
            registered (snd (addLogSubscriber lk s cb)) = registered s @ [cb]) \<and>
         (cb = None \<or> cb \<notin> set (registered s) \<longrightarrow>
            removeLogSubscriber lk s cb = (False, s)) \<and>
         (fst (removeLogSubscriber lk s cb) \<longrightarrow>
            registered (snd (removeLogSubscriber lk s cb)) =
              filter (\<lambda>c. c \<noteq> cb) (registered s) \<and>
            subscriberCount (snd (removeLogSubscriber lk s cb)) = subscriberCount s - 1)"
proof -
  from assms have basics: "subscriberCount s \<le> 4" "None \<notin> set (registered s)"
    "distinct (registered s)"
    by (auto simp: registry_inv_def MAX_SUBSCRIBERS_def list_all_iff)
  have removed: "registered (snd (removeLogSubscriber lk s cb)) =
        filter (\<lambda>c. c \<noteq> cb) (registered s) \<and>
      subscriberCount (snd (removeLogSubscriber lk s cb)) = subscriberCount s - 1"
    if "fst (removeLogSubscriber lk s cb)"
  proof -
    have "remove1 cb (registered s) = filter (\<lambda>c. c \<noteq> cb) (registered s)"
      using basics(3) by (simp add: distinct_remove1_removeAll removeAll_filter_not_eq) metis
    with removeLogSubscriber_removes [OF assms that] show ?thesis by simp
  qed
  have rem_inv: "registry_inv (snd (removeLogSubscriber lk s cb))"
    using assms removeLogSubscriber_removes [OF assms, of lk cb]
      removeLogSubscriber_fails_unchanged [of lk s cb]
    by (cases "fst (removeLogSubscriber lk s cb)") simp_all
  show ?thesis
    using basics removed rem_inv registry_inv_ctor [of a b1 b2 b3 b4] addLogSubscriber_inv [OF assms, of lk cb]
      addLogSubscriber_rejects [of cb s lk] addLogSubscriber_accepts [OF assms, of lk cb]
      removeLogSubscriber_rejects [of cb s lk]
    by blast
qed


lemma empty_slots: "replicate 4 None = [None, None, None, None]"
  by (simp add: numeral_eq_Suc)

lemma with_subscribers_3:
  "with_subscribers [7, 9, 11] =
     (Logger_ctor True True True True True)\<lparr>subscribers := [Some 7, Some 9, Some 11, None], subscriberCount := 3\<rparr>"
  by (simp add: with_subscribers_def addLogSubscriber_def Logger_ctor_def createMutexSafe_def
      empty_slots MAX_SUBSCRIBERS_def Let_def)

lemma with_subscribers_4:
  "with_subscribers [2, 3, 4, 5] =
     (Logger_ctor True True True True True)\<lparr>subscribers := [Some 2, Some 3, Some 4, Some 5], subscriberCount := 4\<rparr>"
  by (simp add: with_subscribers_def addLogSubscriber_def Logger_ctor_def createMutexSafe_def
      empty_slots MAX_SUBSCRIBERS_def Let_def)

text \<open>
  A duplicate, an unregistered callback, a removal from the middle, an addition, and a
  full registry.
\<close>

theorem subscriber_registry_witness:
  "registry_inv (with_subscribers [7, 9, 11]) \<and>
   addLogSubscriber True (with_subscribers [7, 9, 11]) (Some 9) =
     (False, with_subscribers [7, 9, 11]) \<and>
   removeLogSubscriber True (with_subscribers [7, 9, 11]) (Some 8) =
     (False, with_subscribers [7, 9, 11]) \<and>
   fst (removeLogSubscriber True (with_subscribers [7, 9, 11]) (Some 9)) \<and>
   registered (snd (removeLogSubscriber True (with_subscribers [7, 9, 11]) (Some 9))) =
     [Some 7, Some 11] \<and>
   subscribers (snd (removeLogSubscriber True (with_subscribers [7, 9, 11]) (Some 9))) =
     [Some 7, Some 11, None, None] \<and>
   fst (addLogSubscriber True (with_subscribers [7, 9, 11]) (Some 5)) \<and>
   registered (snd (addLogSubscriber True (with_subscribers [7, 9, 11]) (Some 5))) =
     [Some 7, Some 9, Some 11, Some 5] \<and>
   subscriberCount (with_subscribers [2, 3, 4, 5]) = MAX_SUBSCRIBERS \<and>
   addLogSubscriber True (with_subscribers [2, 3, 4, 5]) (Some 6) =
     (False, with_subscribers [2, 3, 4, 5])"
proof -
  have inv4: "registry_inv (with_subscribers [2, 3, 4, 5])"
    by (simp add: with_subscribers_4 registry_inv_def registered_def Logger_ctor_def
        MAX_SUBSCRIBERS_def)
  have cnt4: "subscriberCount (with_subscribers [2, 3, 4, 5]) = MAX_SUBSCRIBERS"
    by (simp add: with_subscribers_4 MAX_SUBSCRIBERS_def)
  have inv: "registry_inv (with_subscribers [7, 9, 11])"
    by (simp add: with_subscribers_3 registry_inv_def registered_def Logger_ctor_def
        MAX_SUBSCRIBERS_def)
  have reg: "registered (with_subscribers [7, 9, 11]) = [Some 7, Some 9, Some 11]"
    by (simp add: with_subscribers_3 registered_def)
  have rem: "removeLogSubscriber True (with_subscribers [7, 9, 11]) (Some 9) =
      (True, (Logger_ctor True True True True True)
         \<lparr>subscribers := [Some 7, Some 11, None, None], subscriberCount := 2\<rparr>)"
    by (simp add: with_subscribers_3 removeLogSubscriber_def Logger_ctor_def Let_def
        shift_down.simps)
  have add: "fst (addLogSubscriber True (with_subscribers [7, 9, 11]) (Some 5))"
    by (simp add: with_subscribers_3 addLogSubscriber_def Logger_ctor_def Let_def
        MAX_SUBSCRIBERS_def)
  show ?thesis
    using subscriber_registry [OF inv, where lk = True and cb = "Some 9"]
      subscriber_registry [OF inv, where lk = True and cb = "Some 8"]
      subscriber_registry [OF inv, where lk = True and cb = "Some 5"]
      subscriber_registry [OF inv4, where lk = True and cb = "Some 6"]
    by (simp add: inv reg rem add cnt4)
qed


section \<open>Subscriber notification: properties\<close>

text \<open>
  C9. While the queue exists, \<open>notifySubscribers\<close> invokes no callback and changes only
  the queue, by at most one item appended; the item is appended exactly when a subscriber
  is registered, the caller is not in an interrupt and the queue is not full. Its tag field
  is the first 31 characters of the tag and its message field the first 199 characters of
  the message, each a prefix of the original that leaves room for the terminator in its
  array, and the empty string for a null pointer.
\<close>

theorem notifySubscribers_queues_bounded_copy:
  "subscriberQueue s = Some q \<longrightarrow>
     (\<exists>new. notifySubscribers inIsr lk s lvl tg m = (s\<lparr>subscriberQueue := Some (q @ new)\<rparr>, []) \<and>
        (new = [] \<or>
         new = [\<lparr> msg_level = lvl,
                  msg_tag = (case tg of None \<Rightarrow> [] | Some t \<Rightarrow> take 31 t),
                  msg_message = (case m of None \<Rightarrow> [] | Some x \<Rightarrow> take 199 x) \<rparr>]) \<and>
        (new \<noteq> [] \<longleftrightarrow>
           subscriberCount s \<noteq> 0 \<and> \<not> inIsr \<and> length q < CONFIG_LOG_SUBSCRIBER_QUEUE_SIZE) \<and>
        (\<forall>x \<in> set new.
           length (msg_tag x) \<le> 31 \<and> length (msg_tag x) < CONFIG_LOG_SUBSCRIBER_TAG_SIZE \<and>
           length (msg_message x) \<le> 199 \<and> length (msg_message x) < CONFIG_LOG_SUBSCRIBER_MSG_SIZE \<and>
           (case tg of None \<Rightarrow> msg_tag x = [] | Some t \<Rightarrow> \<exists>r. t = msg_tag x @ r) \<and>
           (case m of None \<Rightarrow> msg_message x = [] | Some t \<Rightarrow> \<exists>r. t = msg_message x @ r)))"
proof
  assume q: "subscriberQueue s = Some q"
  let ?msg = "\<lparr> msg_level = lvl,
                msg_tag = (case tg of None \<Rightarrow> [] | Some t \<Rightarrow> take 31 t),
                msg_message = (case m of None \<Rightarrow> [] | Some x \<Rightarrow> take 199 x) \<rparr>"
  let ?new = "if subscriberCount s \<noteq> 0 \<and> \<not> inIsr \<and> length q < CONFIG_LOG_SUBSCRIBER_QUEUE_SIZE
              then [?msg] else []"
  have same: "s\<lparr>subscriberQueue := Some q\<rparr> = s"
    using q by simp
  have run: "notifySubscribers inIsr lk s lvl tg m = (s\<lparr>subscriberQueue := Some (q @ ?new)\<rparr>, [])"
    using q same
    by (simp add: notifySubscribers_def xQueueSend_def strncpy_terminated_def Let_def
        CONFIG_LOG_SUBSCRIBER_TAG_SIZE_def CONFIG_LOG_SUBSCRIBER_MSG_SIZE_def
        cong: option.case_cong)
  have tag_prefix: "case tg of None \<Rightarrow> msg_tag ?msg = [] | Some t \<Rightarrow> \<exists>r. t = msg_tag ?msg @ r"
    by (cases tg) (simp_all, metis append_take_drop_id)
  have msg_prefix: "case m of None \<Rightarrow> msg_message ?msg = []
      | Some t \<Rightarrow> \<exists>r. t = msg_message ?msg @ r"
    by (cases m) (simp_all, metis append_take_drop_id)
  have bounds: "length (msg_tag ?msg) \<le> 31" "length (msg_tag ?msg) < CONFIG_LOG_SUBSCRIBER_TAG_SIZE"
    "length (msg_message ?msg) \<le> 199"
    "length (msg_message ?msg) < CONFIG_LOG_SUBSCRIBER_MSG_SIZE"
    by (cases tg; cases m;
        simp add: CONFIG_LOG_SUBSCRIBER_TAG_SIZE_def CONFIG_LOG_SUBSCRIBER_MSG_SIZE_def)+
  show "\<exists>new. notifySubscribers inIsr lk s lvl tg m = (s\<lparr>subscriberQueue := Some (q @ new)\<rparr>, []) \<and>
        (new = [] \<or> new = [?msg]) \<and>
        (new \<noteq> [] \<longleftrightarrow>
           subscriberCount s \<noteq> 0 \<and> \<not> inIsr \<and> length q < CONFIG_LOG_SUBSCRIBER_QUEUE_SIZE) \<and>
        (\<forall>x \<in> set new.
           length (msg_tag x) \<le> 31 \<and> length (msg_tag x) < CONFIG_LOG_SUBSCRIBER_TAG_SIZE \<and>
           length (msg_message x) \<le> 199 \<and> length (msg_message x) < CONFIG_LOG_SUBSCRIBER_MSG_SIZE \<and>
           (case tg of None \<Rightarrow> msg_tag x = [] | Some t \<Rightarrow> \<exists>r. t = msg_tag x @ r) \<and>
           (case m of None \<Rightarrow> msg_message x = [] | Some t \<Rightarrow> \<exists>r. t = msg_message x @ r))"
  proof (intro exI [of _ ?new] conjI)
    show "notifySubscribers inIsr lk s lvl tg m = (s\<lparr>subscriberQueue := Some (q @ ?new)\<rparr>, [])"
      by (rule run)
    show "?new = [] \<or> ?new = [?msg]" by simp
    show "?new \<noteq> [] \<longleftrightarrow>
        subscriberCount s \<noteq> 0 \<and> \<not> inIsr \<and> length q < CONFIG_LOG_SUBSCRIBER_QUEUE_SIZE"
      by simp
    show "\<forall>x \<in> set ?new.
           length (msg_tag x) \<le> 31 \<and> length (msg_tag x) < CONFIG_LOG_SUBSCRIBER_TAG_SIZE \<and>
           length (msg_message x) \<le> 199 \<and> length (msg_message x) < CONFIG_LOG_SUBSCRIBER_MSG_SIZE \<and>
           (case tg of None \<Rightarrow> msg_tag x = [] | Some t \<Rightarrow> \<exists>r. t = msg_tag x @ r) \<and>
           (case m of None \<Rightarrow> msg_message x = [] | Some t \<Rightarrow> \<exists>r. t = msg_message x @ r)"
      using tag_prefix msg_prefix bounds by (simp cong: option.case_cong)
  qed
qed

lemma queue_logger_fields:
  "subscriberQueue queue_logger = Some []" "subscriberCount queue_logger = 1"
  by (simp_all add: queue_logger_def with_subscribers_def addLogSubscriber_def Logger_ctor_def
      createMutexSafe_def MAX_SUBSCRIBERS_def Let_def)

text \<open>
  A 32-character tag and a 250-character message are cut to 31 and 199 characters; null
  pointers give empty fields.
\<close>

theorem notifySubscribers_queues_bounded_copy_witness:
  "subscriberQueue queue_logger = Some [] \<and>
   notifySubscribers False True queue_logger ESP_LOG_WARN (Some long_tag)
       (Some (replicate 250 (CHR ''m''))) =
     (queue_logger\<lparr>subscriberQueue :=
        Some [\<lparr> msg_level = ESP_LOG_WARN, msg_tag = replicate 31 (CHR ''a''),
                msg_message = replicate 199 (CHR ''m'') \<rparr>]\<rparr>, []) \<and>
   notifySubscribers False True queue_logger ESP_LOG_WARN None None =
     (queue_logger\<lparr>subscriberQueue :=
        Some [\<lparr> msg_level = ESP_LOG_WARN, msg_tag = [], msg_message = [] \<rparr>]\<rparr>, [])"
  using notifySubscribers_queues_bounded_copy [of queue_logger "[]" False True ESP_LOG_WARN
      "Some long_tag" "Some (replicate 250 (CHR ''m''))"]
    notifySubscribers_queues_bounded_copy [of queue_logger "[]" False True ESP_LOG_WARN None None]
  by (auto simp: queue_logger_fields long_tag_def CONFIG_LOG_SUBSCRIBER_QUEUE_SIZE_def)

section \<open>Non-blocking console backend: properties\<close>

text \<open>
  C5 (amended). For a non-null message of positive length, the cases taken in the order
  of the code: with less than 20 bytes of capacity the message is dropped, the port untouched, the
  dropped-message counter incremented by one and the dropped-byte counter by the message
  length (both 32-bit counters); with at least 20 bytes but less than the message length,
  the port receives the first (capacity - 5) bytes of the message and then the truncation
  marker, and the partial-write counter is incremented by one; with at least 20 bytes and
  at least the message length, the port receives the whole message and no counter changes.
\<close>

theorem NonBlockingConsoleBackend_write_cases:
  "m \<noteq> [] \<longrightarrow>
     (availableForWrite ser < MIN_BUFFER_SPACE \<longrightarrow>
        NonBlockingConsoleBackend_write ser b (Some m) =
          (ser, b\<lparr>droppedMessages := droppedMessages b + 1,
                  droppedBytes := droppedBytes b + of_nat (length m)\<rparr>)) \<and>
     (MIN_BUFFER_SPACE \<le> availableForWrite ser \<and> availableForWrite ser < length m \<longrightarrow>
        transmitted (fst (NonBlockingConsoleBackend_write ser b (Some m))) =
          transmitted ser @ take (availableForWrite ser - TRUNCATION_MARKER_LEN) m
            @ TRUNCATION_MARKER \<and>
        length (take (availableForWrite ser - TRUNCATION_MARKER_LEN) m) =
          availableForWrite ser - TRUNCATION_MARKER_LEN \<and>
        partialWrites (snd (NonBlockingConsoleBackend_write ser b (Some m))) =
          partialWrites b + 1 \<and>
        droppedMessages (snd (NonBlockingConsoleBackend_write ser b (Some m))) =
          droppedMessages b) \<and>
     (MIN_BUFFER_SPACE \<le> availableForWrite ser \<and> length m \<le> availableForWrite ser \<longrightarrow>
        NonBlockingConsoleBackend_write ser b (Some m) =
          (ser\<lparr>availableForWrite := availableForWrite ser - length m,
               transmitted := transmitted ser @ m\<rparr>, b))"
  by (auto simp: NonBlockingConsoleBackend_write_def Serial_write_def Let_def
      MIN_BUFFER_SPACE_def TRUNCATION_MARKER_LEN_def)

text \<open>
  A 30-byte message with 10, 25 and 40 bytes of capacity.
\<close>

theorem NonBlockingConsoleBackend_write_cases_witness:
  "NonBlockingConsoleBackend_write (serial_with 10) fresh_backend (Some (replicate 30 (CHR ''x''))) =
     (serial_with 10, fresh_backend\<lparr>droppedMessages := 1, droppedBytes := 30\<rparr>) \<and>
   transmitted (fst (NonBlockingConsoleBackend_write (serial_with 25) fresh_backend
       (Some (replicate 30 (CHR ''x''))))) =
     replicate 20 (CHR ''x'') @ ''...'' @ [CHR 0x0D, CHR 0x0A] \<and>
   partialWrites (snd (NonBlockingConsoleBackend_write (serial_with 25) fresh_backend
       (Some (replicate 30 (CHR ''x''))))) = 1 \<and>
   NonBlockingConsoleBackend_write (serial_with 40) fresh_backend (Some (replicate 30 (CHR ''x''))) =
     (\<lparr> availableForWrite = 10, transmitted = replicate 30 (CHR ''x'') \<rparr>, fresh_backend)"
  using NonBlockingConsoleBackend_write_cases [of "replicate 30 (CHR ''x'')" "serial_with 10"
      fresh_backend]
    NonBlockingConsoleBackend_write_cases [of "replicate 30 (CHR ''x'')" "serial_with 25"
      fresh_backend]
    NonBlockingConsoleBackend_write_cases [of "replicate 30 (CHR ''x'')" "serial_with 40"
      fresh_backend]
  by (simp add: serial_with_def fresh_backend_def MIN_BUFFER_SPACE_def TRUNCATION_MARKER_LEN_def
      TRUNCATION_MARKER_def)

text \<open>
  C5 as stated fails in its last case for a message shorter than the threshold: with 15
  bytes of capacity a 10-byte message fits, and it is dropped, not written.
\<close>

theorem NonBlockingConsoleBackend_write_short_counterexample:
  "length (replicate 10 (CHR ''x'')) \<le> availableForWrite (serial_with 15) \<and>
   NonBlockingConsoleBackend_write (serial_with 15) fresh_backend (Some (replicate 10 (CHR ''x''))) =
     (serial_with 15, fresh_backend\<lparr>droppedMessages := 1, droppedBytes := 10\<rparr>) \<and>
   transmitted (serial_with 15) = []"
  by (simp add: NonBlockingConsoleBackend_write_def serial_with_def fresh_backend_def
      MIN_BUFFER_SPACE_def Let_def)

end
